theory Spec2Isabelle
  imports Main
begin

section \<open>Decimal rendering\<close>

text \<open>
  \<^verbatim>\<open>fmt.Sprintf("%d", n)\<close>: the decimal digits of an integer, with a leading minus
  sign for a negative one.
\<close>

definition digit :: "nat \<Rightarrow> char" where
  "digit n = ''0123456789'' ! n"

function show_nat :: "nat \<Rightarrow> string" where
  "show_nat n = (if n < 10 then [digit n] else show_nat (n div 10) @ [digit (n mod 10)])"
  by pat_completeness auto
termination
  by (relation "measure (\<lambda>n. n)") auto

declare show_nat.simps [simp del]

definition show_int :: "int \<Rightarrow> string" where
  "show_int i = (if i < 0 then CHR ''-'' # show_nat (nat (- i)) else show_nat (nat i))"

section \<open>The download engine (package download, retry.go)\<close>

subsection \<open>Errors\<close>

text \<open>
  An error that \<^verbatim>\<open>Download\<close> returns is read by \<^verbatim>\<open>WithRetries\<close> only through its
  \<^verbatim>\<open>Error()\<close> text, so it is modelled by that text: \<open>Err msg\<close>. \<open>Wrapf cause format\<close>
  is the value \<^verbatim>\<open>errors.Wrapf(cause, format)\<close> of github.com/pkg/errors, called with
  no operands after the format.
\<close>

datatype go_error = Err string | Wrapf go_error string

text \<open>
  The messages of a chain, outermost (most recent wrap) first, the root cause last:
  the order in which \<^verbatim>\<open>Error()\<close> prints them and in which unwrapping meets them.
  The message of \<open>Wrapf c f\<close> is \<^verbatim>\<open>fmt.Sprintf(f)\<close> with no operands, which is \<open>f\<close>
  itself when \<open>f\<close> holds no percent sign; what \<^verbatim>\<open>fmt\<close> makes of a format that holds
  one is outside this model (\<open>None\<close>).
\<close>

fun messages :: "go_error \<Rightarrow> string list option" where
  "messages (Err m) = Some [m]"
| "messages (Wrapf c f) =
     (if CHR ''%'' \<in> set f then None
      else case messages c of None \<Rightarrow> None | Some ms \<Rightarrow> Some (f # ms))"

text \<open>
  \<^verbatim>\<open>Error()\<close>: pkg/errors prints a wrapped error as its message, a colon and a space,
  then the cause; as for \<open>messages\<close>, a format with a percent sign is outside this
  model (\<open>None\<close>).
\<close>

fun Error :: "go_error \<Rightarrow> string option" where
  "Error (Err m) = Some m"
| "Error (Wrapf c f) =
     (if CHR ''%'' \<in> set f then None
      else case Error c of None \<Rightarrow> None | Some s \<Rightarrow> Some (f @ '': '' @ s))"

subsection \<open>Constants and status classes\<close>

definition expRetryN :: nat where
  "expRetryN = 3"

text \<open>A \<^verbatim>\<open>time.Duration\<close> counts nanoseconds.\<close>

definition Second :: int where
  "Second = 1000000000"

definition expRetryK :: int where
  "expRetryK = Second * 3"

definition expRetryM :: int where
  "expRetryM = 2"

definition isTransientHttpStatusCode :: "int \<Rightarrow> bool" where
  "isTransientHttpStatusCode statusCode =
     (statusCode = 408 \<or> statusCode = 429 \<or> statusCode = 500 \<or>
      statusCode = 502 \<or> statusCode = 503 \<or> statusCode = 504)"

definition isAccessIssueHttpStatusCode :: "int \<Rightarrow> bool" where
  "isAccessIssueHttpStatusCode statusCode =
     (statusCode = 401 \<or> statusCode = 403 \<or> statusCode = 404 \<or> statusCode = 409)"

subsection \<open>The environment of a run\<close>

text \<open>
  \<^verbatim>\<open>Download(ctx, d)\<close> returns a status, a response body (or nil) and an error (or
  nil). It is not part of the engine: what it returns is the environment's choice.
  The history of a run records every effect of the engine in order: each call of
  \<^verbatim>\<open>Download\<close> with the retry number its context carries and what it returned, each
  \<^verbatim>\<open>Close\<close> of a body, each call of the sleep function with its duration. An
  environment answers a call from the history so far, so a downloader may answer
  differently from one attempt to the next. Writes to the log are not modelled.
\<close>

type_synonym 'o response = "int \<times> 'o option \<times> string option"

datatype ('d, 'o) event =
    Downloaded nat 'd "'o response"
  | Closed 'o
  | Slept int

type_synonym ('d, 'o) env = "('d, 'o) event list \<Rightarrow> 'd \<Rightarrow> 'o response"

text \<open>What the inner \<^verbatim>\<open>for\<close> loop ends with: a \<^verbatim>\<open>return\<close> out of the function, or
  the end of the loop (\<^verbatim>\<open>break\<close> or \<open>n = expRetryN\<close>) with the errors so far.\<close>

datatype 'o loop_end = Return "'o option" | Next_downloader "go_error option"

text \<open>\<^verbatim>\<open>fmt.Sprintf("Attempt %d: %s ", n+1, err.Error())\<close>\<close>

definition attempt_format :: "nat \<Rightarrow> string \<Rightarrow> string" where
  "attempt_format n msg = ''Attempt '' @ show_nat (n + 1) @ '': '' @ msg @ '' ''"

text \<open>
  \<^verbatim>\<open>expRetryK * time.Duration(int(math.Pow(float64(expRetryM), float64(n))))\<close>;
  the power of two is exact in floating point for every \<open>n\<close> below \<open>expRetryN\<close>.
\<close>

definition backoff :: "nat \<Rightarrow> int" where
  "backoff n = expRetryK * expRetryM ^ n"

subsection \<open>WithRetries\<close>

function retries :: "('d, 'o) env \<Rightarrow> 'd \<Rightarrow> nat \<Rightarrow> go_error option \<Rightarrow> ('d, 'o) event list
    \<Rightarrow> 'o loop_end \<times> ('d, 'o) event list" where
  "retries env d n downloadErrors h =
     (if n < expRetryN then
        (case env h d of (status, out, err) \<Rightarrow>
           let h1 = h @ [Downloaded n d (status, out, err)] in
           (case err of
              None \<Rightarrow> (Return out, h1)
            | Some msg \<Rightarrow>
                let downloadErrors' =
                      (case downloadErrors of
                         Some e \<Rightarrow> Wrapf e (attempt_format n msg)
                       | None \<Rightarrow> Err msg);
                    h2 = (case out of Some body \<Rightarrow> h1 @ [Closed body] | None \<Rightarrow> h1)
                in
                  if isAccessIssueHttpStatusCode status then
                    (Next_downloader (Some downloadErrors'), h2)
                  else if status \<noteq> - 1 \<and> \<not> isTransientHttpStatusCode status then
                    (Next_downloader (Some downloadErrors'), h2)
                  else
                    let h3 = (if n \<noteq> expRetryN - 1 then h2 @ [Slept (backoff n)] else h2)
                    in retries env d (n + 1) (Some downloadErrors') h3))
      else (Next_downloader downloadErrors, h))"
  by pat_completeness auto
termination
  by (relation "measure (\<lambda>(env, d, n, downloadErrors, h). expRetryN - n)") auto

fun downloaders_loop :: "('d, 'o) env \<Rightarrow> 'd list \<Rightarrow> go_error option \<Rightarrow> ('d, 'o) event list
    \<Rightarrow> ('o option \<times> go_error option) \<times> ('d, 'o) event list" where
  "downloaders_loop env [] downloadErrors h = ((None, downloadErrors), h)"
| "downloaders_loop env (d # ds) downloadErrors h =
     (case retries env d 0 downloadErrors h of
        (Return out, h') \<Rightarrow> ((out, None), h')
      | (Next_downloader downloadErrors', h') \<Rightarrow> downloaders_loop env ds downloadErrors' h')"

text \<open>The result of \<^verbatim>\<open>WithRetries\<close> (body, error) and the history of the run.\<close>

definition WithRetries :: "('d, 'o) env \<Rightarrow> 'd list
    \<Rightarrow> ('o option \<times> go_error option) \<times> ('d, 'o) event list" where
  "WithRetries env downloaders = downloaders_loop env downloaders None []"

text \<open>What a test reads off the history: the calls of one downloader, the sleeps.\<close>

fun calls :: "'d \<Rightarrow> ('d, 'o) event list \<Rightarrow> nat" where
  "calls d [] = 0"
| "calls d (Downloaded n d' r # h) = (if d' = d then Suc (calls d h) else calls d h)"
| "calls d (e # h) = calls d h"

fun sleeps :: "('d, 'o) event list \<Rightarrow> int list" where
  "sleeps [] = []"
| "sleeps (Slept t # h) = t # sleeps h"
| "sleeps (e # h) = sleeps h"

fun downloads :: "('d, 'o) event list \<Rightarrow> nat" where
  "downloads [] = 0"
| "downloads (Downloaded n d r # h) = Suc (downloads h)"
| "downloads (e # h) = downloads h"

text \<open>
  Every sleep in a history is followed at once by a further attempt, a retry (its
  number is not 0), and lasted the backoff of the attempt before that retry.
\<close>

fun sleep_then_retry :: "('d, 'o) event list \<Rightarrow> bool" where
  "sleep_then_retry [] = True"
| "sleep_then_retry (Slept t # h) =
     (case h of
        Downloaded n d r # h' \<Rightarrow> 0 < n \<and> t = backoff (n - 1) \<and> sleep_then_retry h
      | _ \<Rightarrow> False)"
| "sleep_then_retry (e # h) = sleep_then_retry h"

text \<open>The last event of a history is not a sleep.\<close>

fun no_trailing_sleep :: "('d, 'o) event list \<Rightarrow> bool" where
  "no_trailing_sleep [] = True"
| "no_trailing_sleep [Slept t] = False"
| "no_trailing_sleep [e] = True"
| "no_trailing_sleep (e # h) = no_trailing_sleep h"

fun starts_with_attempt :: "nat \<Rightarrow> ('d, 'o) event list \<Rightarrow> bool" where
  "starts_with_attempt n (Downloaded m d r # h) = (m = n)"
| "starts_with_attempt n h = False"

text \<open>No attempt of the history succeeded: every call of \<^verbatim>\<open>Download\<close> returned an error.\<close>

fun all_failed :: "('d, 'o) event list \<Rightarrow> bool" where
  "all_failed [] = True"
| "all_failed (Downloaded n d (s, out, err) # h) = (err \<noteq> None \<and> all_failed h)"
| "all_failed (e # h) = all_failed h"

text \<open>The failed attempts of a history in order: retry number and error message.\<close>

fun failures :: "('d, 'o) event list \<Rightarrow> (nat \<times> string) list" where
  "failures [] = []"
| "failures (Downloaded n d (s, out, Some msg) # h) = (n, msg) # failures h"
| "failures (e # h) = failures h"

text \<open>Every response recorded in a history is the answer of the environment to the
  events before it.\<close>

fun answered :: "('d, 'o) env \<Rightarrow> ('d, 'o) event list \<Rightarrow> ('d, 'o) event list \<Rightarrow> bool" where
  "answered env before [] = True"
| "answered env before (Downloaded n d r # h) =
     (r = env before d \<and> answered env (before @ [Downloaded n d r]) h)"
| "answered env before (e # h) = answered env (before @ [e]) h"

text \<open>The downloaders of the first attempts (retry number 0) of a history, in order.\<close>

fun first_attempts :: "('d, 'o) event list \<Rightarrow> 'd list" where
  "first_attempts [] = []"
| "first_attempts (Downloaded 0 d r # h) = d # first_attempts h"
| "first_attempts (e # h) = first_attempts h"

text \<open>
  The retry numbers of a history: every attempt has a number below \<open>expRetryN\<close>, and an
  attempt with a number above 0 retries the downloader of the attempt before it, whose
  number was one less. The first argument is the number and downloader of the last
  attempt so far.
\<close>

fun numbered :: "(nat \<times> 'd) option \<Rightarrow> ('d, 'o) event list \<Rightarrow> bool" where
  "numbered last_attempt [] = True"
| "numbered last_attempt (Downloaded n d r # h) =
     (n < expRetryN \<and> (n = 0 \<or> last_attempt = Some (n - 1, d)) \<and> numbered (Some (n, d)) h)"
| "numbered last_attempt (e # h) = numbered last_attempt h"

text \<open>Every retry (an attempt with a number above 0) comes at once after a sleep. The
  first argument tells whether the event before was a sleep.\<close>

fun retry_after_sleep :: "bool \<Rightarrow> ('d, 'o) event list \<Rightarrow> bool" where
  "retry_after_sleep slept [] = True"
| "retry_after_sleep slept (Downloaded n d r # h) = ((n = 0 \<or> slept) \<and> retry_after_sleep False h)"
| "retry_after_sleep slept (Slept t # h) = retry_after_sleep True h"
| "retry_after_sleep slept (Closed body # h) = retry_after_sleep False h"

subsection \<open>The aggregate of a list of failed attempts\<close>

text \<open>
  The error of the first failed attempt is the root of the chain; the message of each
  later attempt, formatted with its number, is wrapped around the chain so far.
\<close>

fun wrap_attempt :: "go_error \<Rightarrow> nat \<times> string \<Rightarrow> go_error" where
  "wrap_attempt e (n, msg) = Wrapf e (attempt_format n msg)"

fun aggregate :: "(nat \<times> string) list \<Rightarrow> go_error option" where
  "aggregate [] = None"
| "aggregate ((n, msg) # rest) = Some (foldl wrap_attempt (Err msg) rest)"

definition aggregate_from :: "go_error option \<Rightarrow> (nat \<times> string) list \<Rightarrow> go_error option" where
  "aggregate_from acc fs =
     (case acc of None \<Rightarrow> aggregate fs | Some e \<Rightarrow> Some (foldl wrap_attempt e fs))"

text \<open>The messages of the attempts in the order of the attempts: the first as it is,
  each later one formatted with its number.\<close>

fun attempt_messages :: "(nat \<times> string) list \<Rightarrow> string list" where
  "attempt_messages [] = []"
| "attempt_messages ((n, msg) # rest) = msg # map (\<lambda>(k, m). attempt_format k m) rest"

text \<open>The text of the aggregate: the formatted messages of the later attempts, the
  latest first, each followed by a colon and a space, then the message of the first
  attempt.\<close>

fun aggregate_text :: "(nat \<times> string) list \<Rightarrow> string" where
  "aggregate_text [] = []"
| "aggregate_text ((n, msg) # rest) =
     concat (map (\<lambda>(k, m). attempt_format k m @ '': '') (rev rest)) @ msg"

text \<open>No message of the failed attempts holds a percent sign.\<close>

fun percent_free :: "(nat \<times> string) list \<Rightarrow> bool" where
  "percent_free [] = True"
| "percent_free ((n, msg) # fs) = (CHR ''%'' \<notin> set msg \<and> percent_free fs)"

subsection \<open>Environments of the package's tests\<close>


text \<open>Downloader 0 is answered 404, every other downloader 200
  (\<^verbatim>\<open>TestRetriesWith_SwitchDownloaderOn404\<close>).\<close>

definition mock_404_then_200 :: "(nat, string) env" where
  "mock_404_then_200 h d =
     (if d = 0 then (404, None, Some ''404 Not Found'') else (200, Some ''body'', None))"

text \<open>A server that answers 429 to the first two calls and 200 from the third on.\<close>

definition healing_429 :: "(unit, string) env" where
  "healing_429 h d =
     (if calls d h < 2 then (429, None, Some ''429 Too Many Requests'')
      else (200, Some ''body'', None))"

text \<open>Every downloader is answered 403
  (\<^verbatim>\<open>TestRetriesWith_SwitchDownloaderThenFailWithCorrectErrorMessage\<close>).\<close>

definition mock_403 :: "(nat, string) env" where
  "mock_403 h d =
     (403, None, Some (if d = 0 then ''first 403 Forbidden'' else ''second 403 Forbidden''))"


section \<open>The sequence guard (package commands, checkAndSaveSeqNum)\<close>

text \<open>
  The marker files: the version each path holds, if the file exists, and the paths
  whose reading or writing the file system refuses.
\<close>

record markers =
  persisted :: "string \<rightharpoonup> int"
  unreadable :: "string \<Rightarrow> bool"
  unwritable :: "string \<Rightarrow> bool"

datatype seq_error = Check_seqnum_failed | Save_seqnum_failed

text \<open>
  Modelled from the spec: \<^verbatim>\<open>seqnum.IsSmallerThan\<close> (package pkg/seqnumutil is not among
  the sources). It reads the persisted version; absence is treated as no prior
  version, so that every candidate is accepted; a candidate at most the persisted
  version is not smaller. \<open>None\<close> is a failure to read the marker.
\<close>

definition IsSmallerThan :: "markers \<Rightarrow> string \<Rightarrow> int \<Rightarrow> bool option" where
  "IsSmallerThan fs mrseqPath seq =
     (if unreadable fs mrseqPath then None
      else case persisted fs mrseqPath of
             None \<Rightarrow> Some True
           | Some stored \<Rightarrow> Some (stored < seq))"

text \<open>
  Modelled from the spec: \<^verbatim>\<open>seqnum.SaveSeqNum\<close> (same package). It persists the
  candidate, overwriting what the marker held. \<open>None\<close> is a failure to write.
\<close>

definition SaveSeqNum :: "markers \<Rightarrow> string \<Rightarrow> int \<Rightarrow> markers option" where
  "SaveSeqNum fs mrseqPath seq =
     (if unwritable fs mrseqPath then None
      else Some (fs\<lparr>persisted := (persisted fs)(mrseqPath \<mapsto> seq)\<rparr>))"

text \<open>The result is \<open>(shouldExit, error)\<close> and the marker files afterwards.\<close>

definition checkAndSaveSeqNum :: "int \<Rightarrow> string \<Rightarrow> markers
    \<Rightarrow> (bool \<times> seq_error option) \<times> markers" where
  "checkAndSaveSeqNum seq mrseqPath fs =
     (case IsSmallerThan fs mrseqPath seq of
        None \<Rightarrow> ((False, Some Check_seqnum_failed), fs)
      | Some smaller \<Rightarrow>
          if \<not> smaller then ((True, None), fs)
          else (case SaveSeqNum fs mrseqPath seq of
                  None \<Rightarrow> ((False, Some Save_seqnum_failed), fs)
                | Some fs' \<Rightarrow> ((False, None), fs')))"

text \<open>A marker file that holds version 7.\<close>

definition marker_at_7 :: markers where
  "marker_at_7 = \<lparr>persisted = [''mrseq'' \<mapsto> 7], unreadable = (\<lambda>p. False), unwritable = (\<lambda>p. False)\<rparr>"

section \<open>Streaming output to an append blob (appendToBlob)\<close>

datatype append_error = Read_failed | Append_failed string

text \<open>
  Modelled from the spec: \<^verbatim>\<open>files.GetFileFromPosition\<close> (package internal/files is not
  among the sources). It reads only the bytes of the file from the given position to
  its end, the bytes appended since the cursor. \<open>None\<close> is a failure: no such file, or
  a position before the start of the file.
\<close>

definition GetFileFromPosition :: "(string \<rightharpoonup> string) \<Rightarrow> string \<Rightarrow> int \<Rightarrow> string option" where
  "GetFileFromPosition files sourceFilePath position =
     (case files sourceFilePath of
        None \<Rightarrow> None
      | Some content \<Rightarrow> if position < 0 then None else Some (drop (nat position) content))"

text \<open>
  The two kinds of sink, each with its \<^verbatim>\<open>AppendBlock\<close>: whether the service accepts a
  block is the environment's choice (\<open>Some\<close> is the error it returns). The second
  component of the result lists the blocks handed to \<^verbatim>\<open>AppendBlock\<close>.
\<close>

record ('r, 'c) append_service =
  ref_AppendBlock :: "'r \<Rightarrow> string \<Rightarrow> string option"
  client_AppendBlock :: "'c \<Rightarrow> string \<Rightarrow> string option"

text \<open>The cursor is an \<^verbatim>\<open>int64\<close>; a file offset plus the bytes read from there stays
  within the size of the file, so the sum does not wrap.\<close>

definition appendToBlob :: "(string \<rightharpoonup> string) \<Rightarrow> ('r, 'c) append_service \<Rightarrow> string
    \<Rightarrow> 'r option \<Rightarrow> 'c option \<Rightarrow> int \<Rightarrow> (int \<times> append_error option) \<times> string list" where
  "appendToBlob files svc sourceFilePath appendBlobRef appendBlobClient outputFilePosition =
     (if appendBlobRef \<noteq> None \<or> appendBlobClient \<noteq> None then
        (case GetFileFromPosition files sourceFilePath outputFilePosition of
           None \<Rightarrow> ((outputFilePosition, Some Read_failed), [])
         | Some newOutput \<Rightarrow>
             let newOutputSize = length newOutput in
             if newOutputSize > 0 then
               (let (err, sent) =
                      (case appendBlobRef of
                         Some ref \<Rightarrow> (ref_AppendBlock svc ref newOutput, [newOutput])
                       | None \<Rightarrow>
                           (case appendBlobClient of
                              Some client \<Rightarrow> (client_AppendBlock svc client newOutput, [newOutput])
                            | None \<Rightarrow> (None, [])))
                in case err of
                     None \<Rightarrow> ((outputFilePosition + int newOutputSize, None), sent)
                   | Some e \<Rightarrow> ((outputFilePosition, Some (Append_failed e)), sent))
             else ((outputFilePosition, None), []))
      else ((outputFilePosition, None), []))"

text \<open>The answer of the configured sink to a block: that of the blob reference when
  there is one, otherwise that of the client. \<open>None\<close> is success.\<close>

definition sink_answer :: "('r, 'c) append_service \<Rightarrow> 'r option \<Rightarrow> 'c option \<Rightarrow> string
    \<Rightarrow> string option" where
  "sink_answer svc appendBlobRef appendBlobClient block =
     (case appendBlobRef of
        Some ref \<Rightarrow> ref_AppendBlock svc ref block
      | None \<Rightarrow>
          (case appendBlobClient of
             Some client \<Rightarrow> client_AppendBlock svc client block
           | None \<Rightarrow> None))"

text \<open>A service that accepts every block, one that refuses every block, and a captured
  output of eleven bytes.\<close>

definition accepting :: "(unit, unit) append_service" where
  "accepting = \<lparr>ref_AppendBlock = (\<lambda>r b. None), client_AppendBlock = (\<lambda>c b. None)\<rparr>"

definition refusing :: "(unit, unit) append_service" where
  "refusing = \<lparr>ref_AppendBlock = (\<lambda>r b. Some ''409 Conflict''),
     client_AppendBlock = (\<lambda>c b. Some ''409 Conflict'')\<rparr>"

definition stdout_file :: "string \<rightharpoonup> string" where
  "stdout_file = [''stdout'' \<mapsto> ''hello world'']"

section \<open>Creating the output and error blobs (createOrReplaceAppendBlob, enable)\<close>

record RunCommandManagedIdentity =
  ClientId :: string
  ObjectId :: string

datatype blob_error =
    ObjectId_not_supported
  | Credential_failed string
  | NewClient_failed string
  | Create_failed string
  | SAS_failed string
  | CreateOrReplace_failed blob_error

text \<open>
  The storage services are the environment. \<^verbatim>\<open>download.CreateOrReplaceAppendBlob\<close> (not
  among the sources) returns a blob reference and an error, either of which may be
  nil; the calls of the Azure SDK return a value or an error.
\<close>

record ('r, 'c, 'k) storage =
  CreateOrReplaceAppendBlob :: "string \<Rightarrow> string \<Rightarrow> 'r option \<times> string option"
  NewManagedIdentityCredential :: "string option \<Rightarrow> string + 'k"
  NewClient :: "string \<Rightarrow> 'k \<Rightarrow> string + 'c"
  Create :: "'c \<Rightarrow> string option"

text \<open>The credential paths tried, in the order of the calls.\<close>

datatype credential = SAS_token | Managed_identity

definition createOrReplaceAppendBlobUsingManagedIdentity :: "('r, 'c, 'k) storage \<Rightarrow> string
    \<Rightarrow> RunCommandManagedIdentity option \<Rightarrow> 'c option \<times> blob_error option" where
  "createOrReplaceAppendBlobUsingManagedIdentity st blobUri managedIdentity =
     (let ID = (case managedIdentity of
                  Some mi \<Rightarrow> if ClientId mi \<noteq> [] then ClientId mi else []
                | None \<Rightarrow> [])
      in
        if (case managedIdentity of
              Some mi \<Rightarrow> ClientId mi = [] \<and> ObjectId mi \<noteq> []
            | None \<Rightarrow> False)
        then (None, Some ObjectId_not_supported)
        else
          (case (if ID \<noteq> [] then NewManagedIdentityCredential st (Some ID)
                 else NewManagedIdentityCredential st None) of
             Inl miCredError \<Rightarrow> (None, Some (Credential_failed miCredError))
           | Inr miCred \<Rightarrow>
               (case NewClient st blobUri miCred of
                  Inl appendBlobNewClientError \<Rightarrow>
                    (None, Some (NewClient_failed appendBlobNewClientError))
                | Inr appendBlobClient \<Rightarrow>
                    (case Create st appendBlobClient of
                       Some createAppendBlobError \<Rightarrow>
                         (None, Some (Create_failed createAppendBlobError))
                     | None \<Rightarrow> (Some appendBlobClient, None)))))"

definition createOrReplaceAppendBlob :: "('r, 'c, 'k) storage \<Rightarrow> string \<Rightarrow> string
    \<Rightarrow> RunCommandManagedIdentity option
    \<Rightarrow> ('r option \<times> 'c option \<times> blob_error option) \<times> credential list" where
  "createOrReplaceAppendBlob st blobUri sasToken managedIdentity =
     (if blobUri \<noteq> [] then
        (let (blobSASRef, blobSASTokenError) =
               (if sasToken \<noteq> [] then CreateOrReplaceAppendBlob st blobUri sasToken
                else (None, None));
             tried1 = (if sasToken \<noteq> [] then [SAS_token] else []);
             (blobAppendClient, blobAppendClientError) =
               (if sasToken = [] \<or> blobSASTokenError \<noteq> None
                then createOrReplaceAppendBlobUsingManagedIdentity st blobUri managedIdentity
                else (None, None));
             tried2 = (if sasToken = [] \<or> blobSASTokenError \<noteq> None
                       then tried1 @ [Managed_identity] else tried1)
         in
           if (sasToken = [] \<and> blobAppendClientError \<noteq> None) \<or>
              (blobSASTokenError \<noteq> None \<and> blobAppendClientError \<noteq> None)
           then
             (case blobSASTokenError of
                Some e \<Rightarrow> ((None, None, Some (CreateOrReplace_failed (SAS_failed e))), tried2)
              | None \<Rightarrow>
                  (case blobAppendClientError of
                     Some er \<Rightarrow> ((None, None, Some (CreateOrReplace_failed er)), tried2)
                   | None \<Rightarrow> ((None, None, None), tried2)))
           else ((blobSASRef, blobAppendClient, None), tried2))
      else ((None, None, None), []))"

text \<open>The fields of the handler settings that this step of \<^verbatim>\<open>enable\<close> reads.\<close>

record HandlerSettings =
  OutputBlobURI :: string
  ErrorBlobURI :: string
  OutputBlobSASToken :: string
  ErrorBlobSASToken :: string
  OutputBlobManagedIdentity :: "RunCommandManagedIdentity option"
  ErrorBlobManagedIdentity :: "RunCommandManagedIdentity option"

text \<open>
  The step of \<^verbatim>\<open>enable\<close> between the downloads and the start of the script: it
  either returns from \<^verbatim>\<open>enable\<close> with an error and an exit code, or goes on with the
  sinks of the two streams. \<^verbatim>\<open>constants.ExitCode_BlobCreateOrReplaceFailed\<close> is not
  among the sources and is a parameter.
\<close>

datatype ('r, 'c) enable_step =
    Exit blob_error int
  | Go_on "'r option \<times> 'c option" "'r option \<times> 'c option"

definition enable_create_blobs :: "('r, 'c, 'k) storage \<Rightarrow> int \<Rightarrow> HandlerSettings
    \<Rightarrow> ('r, 'c) enable_step \<times> credential list" where
  "enable_create_blobs st ExitCode_BlobCreateOrReplaceFailed cfg =
     (let ((outputBlobSASRef, outputBlobAppendClient, outputBlobAppendCreateOrReplaceError), t1) =
            (if OutputBlobURI cfg \<noteq> []
             then createOrReplaceAppendBlob st (OutputBlobURI cfg) (OutputBlobSASToken cfg)
                    (OutputBlobManagedIdentity cfg)
             else ((None, None, None), []))
      in
        case (if OutputBlobURI cfg \<noteq> [] then outputBlobAppendCreateOrReplaceError else None) of
          Some e \<Rightarrow> (Exit e ExitCode_BlobCreateOrReplaceFailed, t1)
        | None \<Rightarrow>
            (let ((errorBlobSASRef, errorBlobAppendClient, errorBlobAppendCreateOrReplaceError), t2) =
                   (if ErrorBlobURI cfg \<noteq> []
                    then createOrReplaceAppendBlob st (ErrorBlobURI cfg) (ErrorBlobSASToken cfg)
                           (ErrorBlobManagedIdentity cfg)
                    else ((None, None, None), []))
             in
               case (if ErrorBlobURI cfg \<noteq> [] then errorBlobAppendCreateOrReplaceError else None) of
                 Some e \<Rightarrow> (Exit e ExitCode_BlobCreateOrReplaceFailed, t1 @ t2)
               | None \<Rightarrow>
                   (Go_on (outputBlobSASRef, outputBlobAppendClient)
                      (errorBlobSASRef, errorBlobAppendClient), t1 @ t2)))"

text \<open>The claim's words: the SAS path, when a token is given, fails, and the
  managed-identity path fails.\<close>

definition sas_fails :: "('r, 'c, 'k) storage \<Rightarrow> string \<Rightarrow> string \<Rightarrow> bool" where
  "sas_fails st blobUri sasToken = (snd (CreateOrReplaceAppendBlob st blobUri sasToken) \<noteq> None)"

definition identity_fails :: "('r, 'c, 'k) storage \<Rightarrow> string
    \<Rightarrow> RunCommandManagedIdentity option \<Rightarrow> bool" where
  "identity_fails st blobUri managedIdentity =
     (snd (createOrReplaceAppendBlobUsingManagedIdentity st blobUri managedIdentity) \<noteq> None)"

definition every_path_fails :: "('r, 'c, 'k) storage \<Rightarrow> string \<Rightarrow> string
    \<Rightarrow> RunCommandManagedIdentity option \<Rightarrow> bool" where
  "every_path_fails st blobUri sasToken managedIdentity =
     ((sasToken = [] \<or> sas_fails st blobUri sasToken) \<and> identity_fails st blobUri managedIdentity)"

text \<open>Storage services and settings for the examples.\<close>

definition sas_down_identity_up :: "(string, string, string) storage" where
  "sas_down_identity_up =
     \<lparr>CreateOrReplaceAppendBlob = (\<lambda>uri sas. (None, Some ''403 Forbidden'')),
      NewManagedIdentityCredential = (\<lambda>ID. Inr ''credential''),
      NewClient = (\<lambda>uri cred. Inr (''client of '' @ uri)),
      Create = (\<lambda>client. None)\<rparr>"

definition nothing_works :: "(string, string, string) storage" where
  "nothing_works =
     \<lparr>CreateOrReplaceAppendBlob = (\<lambda>uri sas. (None, Some ''403 Forbidden'')),
      NewManagedIdentityCredential = (\<lambda>ID. Inl ''no identity''),
      NewClient = (\<lambda>uri cred. Inr (''client of '' @ uri)),
      Create = (\<lambda>client. None)\<rparr>"

definition output_to_blob :: HandlerSettings where
  "output_to_blob =
     \<lparr>OutputBlobURI = ''https://a/out'', ErrorBlobURI = [],
      OutputBlobSASToken = ''sv=1'', ErrorBlobSASToken = [],
      OutputBlobManagedIdentity = None, ErrorBlobManagedIdentity = None\<rparr>"

section \<open>Reporting status (package status)\<close>

subsection \<open>The file system\<close>

text \<open>
  A file is named by its directory and its name in that directory; a file system maps
  the files that exist to their contents. The environment of a call fixes what the
  operating system does: the directory for temporary files, the successive values of
  the random suffix of a temporary name, and which operations fail.
\<close>

type_synonym path = "string \<times> string"

type_synonym files = "path \<rightharpoonup> string"

record os =
  TempDir :: string
  nextRandom :: "nat \<Rightarrow> nat"
  open_error :: "string option"
  write_error :: "nat option"
  rename_error :: "string option"

text \<open>
  \<^verbatim>\<open>os.CreateTemp(dir, pattern)\<close>: the name is the pattern with a random decimal number
  in place of its last \<open>*\<close>, or at its end when it has none; a pattern with a path
  separator is refused; an empty \<open>dir\<close> stands for the directory for temporary files;
  a name that exists is drawn again, up to 10000 times. The new file is empty.
\<close>

definition prefixAndSuffix :: "string \<Rightarrow> (string \<times> string) option" where
  "prefixAndSuffix pattern =
     (if CHR ''/'' \<in> set pattern then None
      else if CHR ''*'' \<in> set pattern
        then Some (rev (tl (dropWhile (\<lambda>c. c \<noteq> CHR ''*'') (rev pattern))),
                   rev (takeWhile (\<lambda>c. c \<noteq> CHR ''*'') (rev pattern)))
        else Some (pattern, []))"

function draw_name :: "os \<Rightarrow> files \<Rightarrow> string \<Rightarrow> string \<Rightarrow> string \<Rightarrow> nat \<Rightarrow> string option" where
  "draw_name env fs dir prefix suffix tries =
     (if tries < 10000 then
        (let name = prefix @ show_nat (nextRandom env tries) @ suffix in
         if fs (dir, name) \<noteq> None then draw_name env fs dir prefix suffix (tries + 1)
         else Some name)
      else None)"
  by pat_completeness auto
termination
  by (relation "measure (\<lambda>(env, fs, dir, prefix, suffix, tries). 10000 - tries)") auto

declare draw_name.simps [simp del]

definition CreateTemp :: "os \<Rightarrow> files \<Rightarrow> string \<Rightarrow> string \<Rightarrow> (string + path) \<times> files" where
  "CreateTemp env fs dir pattern =
     (let dir' = (if dir = [] then TempDir env else dir) in
      case prefixAndSuffix pattern of
        None \<Rightarrow> (Inl ''pattern contains path separator'', fs)
      | Some (prefix, suffix) \<Rightarrow>
          (case open_error env of
             Some e \<Rightarrow> (Inl e, fs)
           | None \<Rightarrow>
               (case draw_name env fs dir' prefix suffix 0 of
                  None \<Rightarrow> (Inl ''file exists'', fs)
                | Some name \<Rightarrow> (Inr (dir', name), fs((dir', name) \<mapsto> [])))))"

text \<open>
  \<^verbatim>\<open>os.WriteFile\<close> truncates the file and writes the data; when it fails, the file is
  left with the bytes written so far.
\<close>

definition WriteFile :: "os \<Rightarrow> files \<Rightarrow> path \<Rightarrow> string \<Rightarrow> string option \<times> files" where
  "WriteFile env fs name data =
     (case write_error env of
        None \<Rightarrow> (None, fs(name \<mapsto> data))
      | Some k \<Rightarrow> (Some ''write failed'', fs(name \<mapsto> take k data)))"

text \<open>\<^verbatim>\<open>os.Rename\<close> replaces the new path by the old file in one step, or fails and
  changes nothing.\<close>

definition Rename :: "os \<Rightarrow> files \<Rightarrow> path \<Rightarrow> path \<Rightarrow> string option \<times> files" where
  "Rename env fs oldpath newpath =
     (case rename_error env of
        Some e \<Rightarrow> (Some e, fs)
      | None \<Rightarrow>
          (case fs oldpath of
             None \<Rightarrow> (Some ''no such file'', fs)
           | Some content \<Rightarrow> (None, (fs(oldpath := None))(newpath \<mapsto> content))))"

subsection \<open>saveStatusReport\<close>

datatype status_error =
    Create_temp_failed string
  | Write_temp_failed path string
  | Move_failed path string
  | Marshal_failed string
  | Json_failed status_error
  | Save_status_failed status_error
  | Report_failed string

text \<open>
  \<^verbatim>\<open>filepath.Join(statusFolder, fn)\<close> is the file \<open>fn\<close> of the directory
  \<open>statusFolder\<close>: the path is used only after \<^verbatim>\<open>CreateTemp\<close> accepted \<open>fn\<close> as a
  pattern, that is when \<open>fn\<close> holds no separator. The result is the error returned
  and the file systems after each operation, in order.
\<close>

definition saveStatusReport :: "os \<Rightarrow> files \<Rightarrow> string \<Rightarrow> string \<Rightarrow> int \<Rightarrow> string
    \<Rightarrow> status_error option \<times> files list" where
  "saveStatusReport env fs statusFolder extName seqNo rootStatusJson =
     (let fn0 = show_int seqNo @ ''.status'';
          fn = (if extName \<noteq> [] then extName @ ''.'' @ fn0 else fn0);
          path = (statusFolder, fn)
      in
        case CreateTemp env fs statusFolder fn of
          (Inl err, fs1) \<Rightarrow> (Some (Create_temp_failed err), [])
        | (Inr tmpFile, fs1) \<Rightarrow>
            (case WriteFile env fs1 tmpFile rootStatusJson of
               (Some err, fs2) \<Rightarrow> (Some (Write_temp_failed tmpFile err), [fs1, fs2])
             | (None, fs2) \<Rightarrow>
                 (case Rename env fs2 tmpFile path of
                    (Some err, fs3) \<Rightarrow> (Some (Move_failed path err), [fs1, fs2, fs3])
                  | (None, fs3) \<Rightarrow> (None, [fs1, fs2, fs3]))))"

text \<open>The name of the status file, in the specification's words:
  \<open>[extensionName.]sequenceNumber.status\<close>.\<close>

definition status_file_name :: "string \<Rightarrow> int \<Rightarrow> string" where
  "status_file_name extName seqNo =
     (if extName = [] then show_int seqNo @ ''.status''
      else extName @ ''.'' @ show_int seqNo @ ''.status'')"

text \<open>An operating system where nothing fails, and a status folder with an old
  status file.\<close>

definition quiet_os :: os where
  "quiet_os = \<lparr>TempDir = ''/tmp'', nextRandom = (\<lambda>i. 42 + i), open_error = None,
     write_error = None, rename_error = None\<rparr>"

definition old_status :: files where
  "old_status = [(''/var/lib/waagent/status'', ''3.status'') \<mapsto> ''old'']"


subsection \<open>JSON documents\<close>

text \<open>
  A JSON value as \<^verbatim>\<open>encoding/json\<close> writes it: a scalar is kept as its encoded token (a
  string literal with its quotes and escapes, a number, \<open>true\<close>, \<open>null\<close>), and the key
  of a member as its encoded string literal. \<^verbatim>\<open>json.Marshal\<close> writes a value without
  any white space. \<^verbatim>\<open>json.MarshalIndent\<close> writes the same tokens, each element of a
  non-empty object or array on a line of its own that begins with the prefix and one
  copy of the indent per level of nesting, and a space after each colon.
\<close>

datatype json = Token string | Object "(string \<times> json) list" | Array "json list"

fun joined :: "string \<Rightarrow> string list \<Rightarrow> string" where
  "joined sep [] = []"
| "joined sep [x] = x"
| "joined sep (x # y # ys) = x @ sep @ joined sep (y # ys)"

fun Marshal :: "json \<Rightarrow> string" where
  "Marshal (Token t) = t"
| "Marshal (Object members) =
     ''{'' @ joined '','' (map (\<lambda>(k, v). k @ '':'' @ Marshal v) members) @ ''}''"
| "Marshal (Array elements) = ''['' @ joined '','' (map Marshal elements) @ '']''"

definition newline :: "string \<Rightarrow> string \<Rightarrow> nat \<Rightarrow> string" where
  "newline prefix indent depth = CHR 0x0A # prefix @ concat (replicate depth indent)"

fun indented :: "string \<Rightarrow> string \<Rightarrow> nat \<Rightarrow> json \<Rightarrow> string" where
  "indented prefix indent depth (Token t) = t"
| "indented prefix indent depth (Object members) =
     (if members = [] then ''{}''
      else ''{'' @ newline prefix indent (depth + 1) @
           joined ('','' @ newline prefix indent (depth + 1))
             (map (\<lambda>(k, v). k @ '': '' @ indented prefix indent (depth + 1) v) members) @
           newline prefix indent depth @ ''}'')"
| "indented prefix indent depth (Array elements) =
     (if elements = [] then ''[]''
      else ''['' @ newline prefix indent (depth + 1) @
           joined ('','' @ newline prefix indent (depth + 1))
             (map (indented prefix indent (depth + 1)) elements) @
           newline prefix indent depth @ '']'')"

definition MarshalIndent :: "json \<Rightarrow> string \<Rightarrow> string \<Rightarrow> string" where
  "MarshalIndent v prefix indent = indented prefix indent 0 v"

subsection \<open>The two reports\<close>

datatype StatusType = StatusTransitioning | StatusError | StatusSuccess

record Cmd =
  Name :: string
  ShouldReportStatus :: bool

text \<open>
  Package types is not among the sources: the constructor of a status report and the
  JSON value that \<^verbatim>\<open>encoding/json\<close> makes of a report (or its refusal to encode it) are
  parameters.
\<close>

record 'r types_pkg =
  NewStatusReport :: "StatusType \<Rightarrow> string \<Rightarrow> string \<Rightarrow> 'r"
  json_of :: "'r \<Rightarrow> string + json"

definition getRootStatusJson :: "'r types_pkg \<Rightarrow> StatusType \<Rightarrow> Cmd \<Rightarrow> string \<Rightarrow> bool
    \<Rightarrow> status_error + string" where
  "getRootStatusJson types statusType c msg indent =
     (let statusReport = NewStatusReport types statusType (Name c) msg in
      case json_of types statusReport of
        Inl err \<Rightarrow> Inl (Marshal_failed err)
      | Inr v \<Rightarrow> Inr (if indent then MarshalIndent v [] [CHR 0x09] else Marshal v))"

text \<open>
  \<^verbatim>\<open>reporter.ReportStatus\<close> sends the body to the reporting endpoint: whether the
  request fails is the environment's choice. The result is the error returned and the
  bodies sent.
\<close>

definition ReportStatusToBlob :: "'r types_pkg \<Rightarrow> (string \<Rightarrow> string option) \<Rightarrow> StatusType
    \<Rightarrow> Cmd \<Rightarrow> string \<Rightarrow> status_error option \<times> string list" where
  "ReportStatusToBlob types ReportStatus statusType c msg =
     (if \<not> ShouldReportStatus c then (None, [])
      else
        case getRootStatusJson types statusType c msg False of
          Inl err \<Rightarrow> (Some (Json_failed err), [])
        | Inr rootStatusJson \<Rightarrow>
            (case ReportStatus rootStatusJson of
               Some err \<Rightarrow> (Some (Report_failed err), [rootStatusJson])
             | None \<Rightarrow> (None, [rootStatusJson])))"

definition ReportStatusToLocalFile :: "'r types_pkg \<Rightarrow> os \<Rightarrow> files \<Rightarrow> string \<Rightarrow> string \<Rightarrow> int
    \<Rightarrow> StatusType \<Rightarrow> Cmd \<Rightarrow> string \<Rightarrow> status_error option \<times> files list" where
  "ReportStatusToLocalFile types env fs StatusFolder ExtName SeqNum statusType c msg =
     (if \<not> ShouldReportStatus c then (None, [])
      else
        case getRootStatusJson types statusType c msg True of
          Inl err \<Rightarrow> (Some (Json_failed err), [])
        | Inr rootStatusJson \<Rightarrow>
            (case saveStatusReport env fs StatusFolder ExtName SeqNum rootStatusJson of
               (Some err, states) \<Rightarrow> (Some (Save_status_failed err), states)
             | (None, states) \<Rightarrow> (None, states)))"

text \<open>
  Modelled from the spec: \<^verbatim>\<open>types.NewStatusReport\<close> and the JSON form of its value. The
  status document holds the status kind, the command name and the free-text message.
  The string literals are right for texts that JSON writes without an escape.
\<close>

definition quoted :: "string \<Rightarrow> string" where
  "quoted s = CHR 0x22 # s @ [CHR 0x22]"

fun status_name :: "StatusType \<Rightarrow> string" where
  "status_name StatusTransitioning = ''transitioning''"
| "status_name StatusError = ''error''"
| "status_name StatusSuccess = ''success''"

definition status_document :: "(StatusType \<times> string \<times> string) types_pkg" where
  "status_document =
     \<lparr>NewStatusReport = (\<lambda>statusType name msg. (statusType, name, msg)),
      json_of = (\<lambda>(statusType, name, msg).
        Inr (Object [(quoted ''status'', Token (quoted (status_name statusType))),
                     (quoted ''name'', Token (quoted name)),
                     (quoted ''message'', Token (quoted msg))]))\<rparr>"

text \<open>The command, the endpoint and the file system of the examples.\<close>

definition cmd_enable :: Cmd where
  "cmd_enable = \<lparr>Name = ''enable'', ShouldReportStatus = True\<rparr>"

definition endpoint_accepts :: "string \<Rightarrow> string option" where
  "endpoint_accepts body = None"

definition no_files :: files where
  "no_files = Map.empty"


section \<open>Theorems\<close>

declare retries.simps [simp del]

subsection \<open>Decimal digits\<close>

lemma show_nat_digits: "show_nat n \<noteq> [] \<and> set (show_nat n) \<subseteq> set ''0123456789''"
proof (induction n rule: show_nat.induct)
  case (1 n)
  have d: "digit k \<in> set ''0123456789''" if "k < 10" for k
    using that unfolding digit_def by (intro nth_mem) simp
  show ?case
  proof (cases "n < 10")
    case True
    then show ?thesis using d [of n] by (subst (1 2) show_nat.simps) simp
  next
    case False
    then show ?thesis using 1 d [of "n mod 10"] by (subst (1 2) show_nat.simps) simp
  qed
qed

subsection \<open>Unfolding one attempt\<close>

lemma retries_done: "expRetryN \<le> n \<Longrightarrow> retries env d n acc h = (Next_downloader acc, h)"
  by (simp add: retries.simps)

lemma failures_append [simp]: "failures (a @ b) = failures a @ failures b"
  by (induction a rule: failures.induct) simp_all

lemma all_failed_append [simp]: "all_failed (a @ b) = (all_failed a \<and> all_failed b)"
  by (induction a rule: all_failed.induct) simp_all

lemma downloads_append [simp]: "downloads (a @ b) = downloads a + downloads b"
  by (induction a rule: downloads.induct) simp_all

lemma aggregate_from_append:
  "aggregate_from (aggregate_from acc a) b = aggregate_from acc (a @ b)"
  by (cases acc; cases a) (auto simp: aggregate_from_def)


lemma retries_success:
  "n < expRetryN \<Longrightarrow> env h d = (s, out, None) \<Longrightarrow>
     retries env d n acc h = (Return out, h @ [Downloaded n d (s, out, None)])"
  by (subst retries.simps) simp

lemma retries_abandon:
  "n < expRetryN \<Longrightarrow> env h d = (s, out, Some msg) \<Longrightarrow>
   isAccessIssueHttpStatusCode s \<or> (s \<noteq> - 1 \<and> \<not> isTransientHttpStatusCode s) \<Longrightarrow>
     retries env d n acc h =
       (Next_downloader (Some (case acc of None \<Rightarrow> Err msg | Some e \<Rightarrow> Wrapf e (attempt_format n msg))),
        h @ Downloaded n d (s, out, Some msg) # (case out of None \<Rightarrow> [] | Some body \<Rightarrow> [Closed body]))"
  apply (subst retries.simps)
  apply (cases out)
   apply (simp_all add: Let_def)
  apply blast+
  done

lemma retries_again:
  "n < expRetryN \<Longrightarrow> env h d = (s, out, Some msg) \<Longrightarrow>
   \<not> isAccessIssueHttpStatusCode s \<Longrightarrow> s = - 1 \<or> isTransientHttpStatusCode s \<Longrightarrow>
     retries env d n acc h =
       retries env d (n + 1)
         (Some (case acc of None \<Rightarrow> Err msg | Some e \<Rightarrow> Wrapf e (attempt_format n msg)))
         (h @ Downloaded n d (s, out, Some msg) # (case out of None \<Rightarrow> [] | Some body \<Rightarrow> [Closed body])
            @ (if n \<noteq> expRetryN - 1 then [Slept (backoff n)] else []))"
  apply (subst retries.simps)
  apply (cases out)
   apply (simp_all add: Let_def)
  apply blast+
  done


lemmas status_defs = isAccessIssueHttpStatusCode_def isTransientHttpStatusCode_def

lemma attempt_format_values:
  "attempt_format 0 m = ''Attempt 1: '' @ m @ '' ''"
  "attempt_format (Suc 0) m = ''Attempt 2: '' @ m @ '' ''"
  "attempt_format (Suc (Suc 0)) m = ''Attempt 3: '' @ m @ '' ''"
  by (simp_all add: attempt_format_def digit_def show_nat.simps)

lemma backoff_Suc: "backoff 0 = 3 * Second" "backoff (Suc 0) = 6 * Second"
  by (simp_all add: backoff_def expRetryK_def expRetryM_def)

lemmas run_simps = WithRetries_def expRetryN_def status_defs attempt_format_values backoff_Suc
  numeral_2_eq_2

subsection \<open>Invariants of the two loops\<close>

lemma aggregate_from_single:
  "aggregate_from acc [(n, msg)] =
     Some (case acc of None \<Rightarrow> Err msg | Some e \<Rightarrow> Wrapf e (attempt_format n msg))"
  by (cases acc) (simp_all add: aggregate_from_def)

lemma aggregate_from_Cons:
  "aggregate_from acc ((n, msg) # fs) =
     aggregate_from (Some (case acc of None \<Rightarrow> Err msg | Some e \<Rightarrow> Wrapf e (attempt_format n msg))) fs"
  by (cases acc) (simp_all add: aggregate_from_def)

lemma retries_agg:
  fixes env :: "('d, 'o) env"
  shows "retries env d n acc h = (r, h') \<Longrightarrow>
     \<exists>ev. h' = h @ ev \<and>
       (case r of Return b \<Rightarrow> \<not> all_failed ev
        | Next_downloader acc' \<Rightarrow> all_failed ev \<and> acc' = aggregate_from acc (failures ev))"
proof (induction "expRetryN - n" arbitrary: n acc h)
  case 0
  then show ?case by (auto simp: retries_done aggregate_from_def split: option.splits)
next
  case (Suc k)
  then have n: "n < expRetryN" by simp
  obtain s out err where resp: "env h d = (s, out, err)" by (cases "env h d")
  show ?case
  proof (cases err)
    case None
    with n resp Suc.prems show ?thesis by (auto simp: retries_success)
  next
    case (Some msg)
    define acc' where "acc' = (case acc of None \<Rightarrow> Err msg | Some e \<Rightarrow> Wrapf e (attempt_format n msg))"
    define c where "c = (case out of None \<Rightarrow> [] | Some body \<Rightarrow> [Closed body :: ('d, 'o) event])"
    define sl where "sl = (if n \<noteq> expRetryN - 1 then [Slept (backoff n) :: ('d, 'o) event] else [])"
    have c: "all_failed c" "failures c = []" by (simp_all add: c_def split: option.splits)
    have sl: "all_failed sl" "failures sl = []" by (simp_all add: sl_def)
    note resp' = resp [unfolded Some]
    show ?thesis
    proof (cases "isAccessIssueHttpStatusCode s \<or> (s \<noteq> - 1 \<and> \<not> isTransientHttpStatusCode s)")
      case True
      from retries_abandon [where env = env and h = h and d = d and acc = acc, OF n resp' True] Suc.prems
      have "r = Next_downloader (Some acc')" "h' = h @ Downloaded n d (s, out, Some msg) # c"
        by (simp_all add: acc'_def c_def)
      then show ?thesis using c
        by (intro exI [of _ "Downloaded n d (s, out, Some msg) # c"]) (simp add: aggregate_from_single acc'_def)
    next
      case False
      then have na: "\<not> isAccessIssueHttpStatusCode s" and tr: "s = - 1 \<or> isTransientHttpStatusCode s"
        by auto
      from retries_again [where env = env and h = h and d = d and acc = acc, OF n resp' na tr] Suc.prems
      have eq: "retries env d (n + 1) (Some acc') (h @ Downloaded n d (s, out, Some msg) # c @ sl) = (r, h')"
        by (simp add: acc'_def c_def sl_def)
      have k: "k = expRetryN - (n + 1)" using Suc.hyps(2) by simp
      from Suc.hyps(1) [OF k eq] obtain ev
        where ev: "h' = (h @ Downloaded n d (s, out, Some msg) # c @ sl) @ ev"
          and r: "case r of Return b \<Rightarrow> \<not> all_failed ev
            | Next_downloader acc'' \<Rightarrow> all_failed ev \<and> acc'' = aggregate_from (Some acc') (failures ev)"
        by blast
      have 1: "h' = h @ (Downloaded n d (s, out, Some msg) # c @ sl @ ev)" using ev by simp
      have 2: "case r of Return b \<Rightarrow> \<not> all_failed (Downloaded n d (s, out, Some msg) # c @ sl @ ev)
            | Next_downloader acc'' \<Rightarrow> all_failed (Downloaded n d (s, out, Some msg) # c @ sl @ ev)
                 \<and> acc'' = aggregate_from acc (failures (Downloaded n d (s, out, Some msg) # c @ sl @ ev))"
        using r c sl by (cases r) (simp_all add: aggregate_from_Cons acc'_def)
      show ?thesis by (rule exI [of _ "Downloaded n d (s, out, Some msg) # c @ sl @ ev"]) (rule conjI [OF 1 2])
    qed
  qed
qed

lemma loop_agg:
  "downloaders_loop env ds acc h = ((out, err), h') \<Longrightarrow>
     \<exists>ev. h' = h @ ev \<and>
       (if all_failed ev then out = None \<and> err = aggregate_from acc (failures ev) else err = None)"
proof (induction ds arbitrary: acc h)
  case Nil
  then show ?case by (auto simp: aggregate_from_def split: option.splits)
next
  case (Cons d ds)
  obtain r h1 where r: "retries env d 0 acc h = (r, h1)" by (cases "retries env d 0 acc h")
  from retries_agg [OF r] obtain ev where ev: "h1 = h @ ev"
    and rr: "case r of Return b \<Rightarrow> \<not> all_failed ev
        | Next_downloader acc' \<Rightarrow> all_failed ev \<and> acc' = aggregate_from acc (failures ev)"
    by blast
  show ?case
  proof (cases r)
    case (Return o')
    with Cons.prems r rr ev show ?thesis by auto
  next
    case (Next_downloader acc')
    with Cons.prems r have "downloaders_loop env ds acc' h1 = ((out, err), h')" by simp
    from Cons.IH [OF this] obtain ev' where ev': "h' = h1 @ ev'"
      and res: "if all_failed ev' then out = None \<and> err = aggregate_from acc' (failures ev') else err = None"
      by blast
    have 1: "h' = h @ (ev @ ev')" using ev ev' by simp
    have 2: "if all_failed (ev @ ev') then out = None \<and> err = aggregate_from acc (failures (ev @ ev')) else err = None"
      using res rr Next_downloader by (auto simp: aggregate_from_append split: if_splits)
    show ?thesis by (rule exI [of _ "ev @ ev'"]) (rule conjI [OF 1 2])
  qed
qed

lemma attempt_format_percent:
  "(CHR ''%'' \<in> set (attempt_format n msg)) = (CHR ''%'' \<in> set msg)"
  using show_nat_digits [of "n + 1"] by (auto simp: attempt_format_def)

lemma messages_foldl:
  "percent_free fs \<Longrightarrow> messages e = Some ms \<Longrightarrow>
     messages (foldl wrap_attempt e fs) = Some (rev (map (\<lambda>(k, m). attempt_format k m) fs) @ ms)"
  by (induction fs arbitrary: e ms) (auto simp: attempt_format_percent)

lemma Error_foldl:
  "percent_free fs \<Longrightarrow> Error e = Some t \<Longrightarrow>
     Error (foldl wrap_attempt e fs) =
       Some (concat (map (\<lambda>(k, m). attempt_format k m @ '': '') (rev fs)) @ t)"
  by (induction fs arbitrary: e t) (auto simp: attempt_format_percent)

lemma starts_with_attemptD:
  "starts_with_attempt n ev \<Longrightarrow> \<exists>d r ev'. ev = Downloaded n d r # ev'"
  by (cases "(n, ev)" rule: starts_with_attempt.cases) auto

lemma no_trailing_sleep_Cons:
  "h \<noteq> [] \<Longrightarrow> no_trailing_sleep (e # h) = no_trailing_sleep h"
  by (cases h; cases e) simp_all

lemma sleep_then_retry_append:
  "sleep_then_retry a \<Longrightarrow> no_trailing_sleep a \<Longrightarrow> sleep_then_retry b \<Longrightarrow> sleep_then_retry (a @ b)"
proof (induction a)
  case Nil
  then show ?case by simp
next
  case (Cons e a)
  show ?case
  proof (cases a)
    case Nil
    with Cons.prems show ?thesis by (cases e) simp_all
  next
    case (Cons e' a')
    with Cons.prems Cons.IH show ?thesis
      by (cases e; cases e') (simp_all add: no_trailing_sleep_Cons)
  qed
qed

lemma no_trailing_sleep_append:
  "no_trailing_sleep b \<Longrightarrow> b \<noteq> [] \<or> no_trailing_sleep a \<Longrightarrow> no_trailing_sleep (a @ b)"
  by (induction a rule: no_trailing_sleep.induct) (auto elim: no_trailing_sleep.elims)

lemma retries_sleeps:
  fixes env :: "('d, 'o) env"
  shows "retries env d n acc h = (r, h') \<Longrightarrow>
     \<exists>ev. h' = h @ ev \<and> sleep_then_retry ev \<and> no_trailing_sleep ev \<and>
          (n < expRetryN \<longrightarrow> starts_with_attempt n ev) \<and> downloads ev \<le> expRetryN - n"
proof (induction "expRetryN - n" arbitrary: n acc h)
  case 0
  then show ?case by (auto simp: retries_done)
next
  case (Suc k)
  then have n: "n < expRetryN" by simp
  obtain s out err where resp: "env h d = (s, out, err)" by (cases "env h d")
  show ?case
  proof (cases err)
    case None
    with n resp Suc.prems show ?thesis by (auto simp: retries_success)
  next
    case (Some msg)
    define c where "c = (case out of None \<Rightarrow> [] | Some body \<Rightarrow> [Closed body :: ('d, 'o) event])"
    define sl where "sl = (if n \<noteq> expRetryN - 1 then [Slept (backoff n) :: ('d, 'o) event] else [])"
    note resp' = resp [unfolded Some]
    show ?thesis
    proof (cases "isAccessIssueHttpStatusCode s \<or> (s \<noteq> - 1 \<and> \<not> isTransientHttpStatusCode s)")
      case True
      from retries_abandon [where env = env and h = h and d = d and acc = acc, OF n resp' True] Suc.prems
      have "h' = h @ Downloaded n d (s, out, Some msg) # c"
        by (simp_all add: c_def)
      then show ?thesis using n
        by (intro exI [of _ "Downloaded n d (s, out, Some msg) # c"]) (auto simp: c_def split: option.splits)
    next
      case False
      then have na: "\<not> isAccessIssueHttpStatusCode s" and tr: "s = - 1 \<or> isTransientHttpStatusCode s"
        by auto
      from retries_again [where env = env and h = h and d = d and acc = acc, OF n resp' na tr] Suc.prems
      obtain acc' where eq: "retries env d (n + 1) acc' (h @ Downloaded n d (s, out, Some msg) # c @ sl) = (r, h')"
        by (simp add: c_def sl_def)
      have k: "k = expRetryN - (n + 1)" using Suc.hyps(2) by simp
      from Suc.hyps(1) [OF k eq] obtain ev
        where ev: "h' = (h @ Downloaded n d (s, out, Some msg) # c @ sl) @ ev"
          and p: "sleep_then_retry ev" "no_trailing_sleep ev"
             "n + 1 < expRetryN \<longrightarrow> starts_with_attempt (n + 1) ev"
             "downloads ev \<le> expRetryN - (n + 1)"
        by blast
      have 1: "h' = h @ (Downloaded n d (s, out, Some msg) # c @ sl @ ev)" using ev by simp
      have a: "sleep_then_retry (sl @ ev)"
      proof (cases "n \<noteq> expRetryN - 1")
        case True
        with n have "n + 1 < expRetryN" by simp
        with p(3) obtain m d' r' ev' where "ev = Downloaded m d' r' # ev'" "m = n + 1"
          by (auto dest: starts_with_attemptD)
        with p(1) True show ?thesis by (simp add: sl_def)
      next
        case False
        with p(1) show ?thesis by (simp add: sl_def)
      qed
      have b: "no_trailing_sleep (sl @ ev)"
      proof (cases "n \<noteq> expRetryN - 1")
        case True
        with n have "n + 1 < expRetryN" by simp
        with p(3) have "ev \<noteq> []" by auto
        with p(2) show ?thesis by (intro no_trailing_sleep_append) auto
      next
        case False
        with p(2) show ?thesis by (simp add: sl_def)
      qed
      have 2: "sleep_then_retry (Downloaded n d (s, out, Some msg) # c @ sl @ ev)"
        using a by (simp add: c_def split: option.splits)
      have 3: "no_trailing_sleep (Downloaded n d (s, out, Some msg) # c @ sl @ ev)"
        using b no_trailing_sleep_append [of "c @ sl @ ev" "[Downloaded n d (s, out, Some msg)]"]
          no_trailing_sleep_append [of "sl @ ev" c]
        by (auto simp: c_def split: option.splits)
      have 4: "downloads (Downloaded n d (s, out, Some msg) # c @ sl @ ev) \<le> expRetryN - n"
        using p(4) n by (auto simp: c_def sl_def split: option.splits)
      show ?thesis
        by (rule exI [of _ "Downloaded n d (s, out, Some msg) # c @ sl @ ev"]) (use 1 2 3 4 in simp)
    qed
  qed
qed

lemma loop_sleeps:
  "downloaders_loop env ds acc h = (res, h') \<Longrightarrow>
     \<exists>ev. h' = h @ ev \<and> sleep_then_retry ev \<and> no_trailing_sleep ev \<and>
          downloads ev \<le> expRetryN * length ds"
proof (induction ds arbitrary: acc h)
  case Nil
  then show ?case by auto
next
  case (Cons d ds)
  obtain r h1 where r: "retries env d 0 acc h = (r, h1)" by (cases "retries env d 0 acc h")
  from retries_sleeps [OF r] obtain ev where ev: "h1 = h @ ev"
    and p: "sleep_then_retry ev" "no_trailing_sleep ev" "downloads ev \<le> expRetryN"
    by auto
  show ?case
  proof (cases r)
    case (Return o')
    with Cons.prems r have "h' = h @ ev" using ev by auto
    with p show ?thesis by (intro exI [of _ ev]) simp
  next
    case (Next_downloader acc')
    with Cons.prems r have "downloaders_loop env ds acc' h1 = (res, h')" by simp
    from Cons.IH [OF this] obtain ev' where ev': "h' = h1 @ ev'"
      and q: "sleep_then_retry ev'" "no_trailing_sleep ev'" "downloads ev' \<le> expRetryN * length ds"
      by blast
    have 1: "h' = h @ (ev @ ev')" using ev ev' by simp
    have 2: "sleep_then_retry (ev @ ev')" using p q by (simp add: sleep_then_retry_append)
    have 3: "no_trailing_sleep (ev @ ev')" using p q by (intro no_trailing_sleep_append) auto
    have 4: "downloads (ev @ ev') \<le> expRetryN * length (d # ds)" using p q by simp
    show ?thesis by (rule exI [of _ "ev @ ev'"]) (use 1 2 3 4 in simp)
  qed
qed


subsection \<open>The history of a run\<close>

lemma answered_append:
  "answered env b (x @ y) = (answered env b x \<and> answered env (b @ x) y)"
proof (induction x arbitrary: b)
  case Nil
  then show ?case by simp
next
  case (Cons e x)
  then show ?case by (cases e) simp_all
qed

lemma first_attempts_append [simp]:
  "first_attempts (x @ y) = first_attempts x @ first_attempts y"
proof (induction x)
  case Nil
  then show ?case by simp
next
  case (Cons e x)
  show ?case
  proof (cases e)
    case (Downloaded n d r)
    with Cons show ?thesis by (cases n) simp_all
  qed (use Cons in simp_all)
qed

lemma calls_append [simp]: "calls d (x @ y) = calls d x + calls d y"
  by (induction x rule: calls.induct) simp_all

lemma numbered_append:
  "numbered l x \<Longrightarrow> (\<And>l'. numbered l' y) \<Longrightarrow> numbered l (x @ y)"
proof (induction x arbitrary: l)
  case Nil
  then show ?case by simp
next
  case (Cons e x)
  then show ?case by (cases e) simp_all
qed

lemma retries_run:
  fixes env :: "('d, 'o) env"
  shows "retries env d n acc h = (r, h') \<Longrightarrow>
     \<exists>ev. h' = h @ ev \<and> answered env h ev \<and>
          (\<forall>l. n = 0 \<or> l = Some (n - 1, d) \<longrightarrow> numbered l ev) \<and>
          calls d' ev \<le> (if d' = d then expRetryN - n else 0) \<and>
          first_attempts ev = (if n = 0 then [d] else [])"
proof (induction "expRetryN - n" arbitrary: n acc h)
  case 0
  then have "n \<noteq> 0" "h' = h" by (simp_all add: expRetryN_def retries_done)
  then show ?case by (intro exI [of _ "[]"]) simp
next
  case (Suc k)
  then have n: "n < expRetryN" by simp
  obtain s out err where resp: "env h d = (s, out, err)" by (cases "env h d")
  have first: "first_attempts (Downloaded n d x # y) = (if n = 0 then [d] else []) @ first_attempts y"
    for x y by (cases n) simp_all
  show ?case
  proof (cases err)
    case None
    define E where "E = [Downloaded n d (s, out, None :: string option) :: ('d, 'o) event]"
    from retries_success [where env = env and h = h and d = d and acc = acc, OF n resp [unfolded None]]
      Suc.prems
    have 1: "h' = h @ E" by (simp add: E_def)
    have 2: "answered env h E" using resp None by (simp add: E_def)
    have 3: "\<forall>l. n = 0 \<or> l = Some (n - 1, d) \<longrightarrow> numbered l E" using n by (simp add: E_def)
    have 4: "calls d' E \<le> (if d' = d then expRetryN - n else 0)" using n by (auto simp: E_def)
    have 5: "first_attempts E = (if n = 0 then [d] else [])" by (simp add: E_def first)
    show ?thesis by (intro exI [of _ E] conjI; fact)
  next
    case (Some msg)
    define c where "c = (case out of None \<Rightarrow> [] | Some body \<Rightarrow> [Closed body :: ('d, 'o) event])"
    define sl where "sl = (if n \<noteq> expRetryN - 1 then [Slept (backoff n) :: ('d, 'o) event] else [])"
    note resp' = resp [unfolded Some]
    have c_plain: "calls dd (c @ x) = calls dd x" "first_attempts (c @ x) = first_attempts x"
      "numbered l (c @ x) = numbered l x" "answered env b (c @ x) = answered env (b @ c) x"
      "calls dd c = 0" "first_attempts c = []" "numbered l c" "answered env b c"
      for x l b dd
      by (simp_all add: c_def split: option.splits)
    have sl_plain: "calls dd (sl @ x) = calls dd x" "first_attempts (sl @ x) = first_attempts x"
      "numbered l (sl @ x) = numbered l x" "answered env b (sl @ x) = answered env (b @ sl) x"
      "calls dd sl = 0" "first_attempts sl = []"
      for x l b dd
      by (simp_all add: sl_def)
    show ?thesis
    proof (cases "isAccessIssueHttpStatusCode s \<or> (s \<noteq> - 1 \<and> \<not> isTransientHttpStatusCode s)")
      case True
      define E where "E = Downloaded n d (s, out, Some msg) # c @ []"
      from retries_abandon [where env = env and h = h and d = d and acc = acc, OF n resp' True] Suc.prems
      have 1: "h' = h @ E" by (simp add: c_def E_def)
      have 2: "answered env h E" using resp' unfolding E_def by (simp add: c_plain)
      have 3: "\<forall>l. n = 0 \<or> l = Some (n - 1, d) \<longrightarrow> numbered l E"
        using n unfolding E_def by (simp add: c_plain)
      have 4: "calls d' E \<le> (if d' = d then expRetryN - n else 0)"
        using n unfolding E_def by (auto simp: c_plain)
      have 5: "first_attempts E = (if n = 0 then [d] else [])"
        unfolding E_def by (simp add: first c_plain)
      show ?thesis by (intro exI [of _ E] conjI; fact)
    next
      case False
      then have na: "\<not> isAccessIssueHttpStatusCode s" and tr: "s = - 1 \<or> isTransientHttpStatusCode s"
        by auto
      from retries_again [where env = env and h = h and d = d and acc = acc, OF n resp' na tr] Suc.prems
      obtain acc' where eq: "retries env d (n + 1) acc' (h @ Downloaded n d (s, out, Some msg) # c @ sl) = (r, h')"
        by (simp add: c_def sl_def)
      have k: "k = expRetryN - (n + 1)" using Suc.hyps(2) by simp
      from Suc.hyps(1) [OF k eq] obtain ev
        where ev: "h' = (h @ Downloaded n d (s, out, Some msg) # c @ sl) @ ev"
          and p1: "answered env (h @ Downloaded n d (s, out, Some msg) # c @ sl) ev"
          and p2: "\<forall>l. n + 1 = 0 \<or> l = Some (n + 1 - 1, d) \<longrightarrow> numbered l ev"
          and p3: "calls d' ev \<le> (if d' = d then expRetryN - (n + 1) else 0)"
          and p4: "first_attempts ev = (if n + 1 = 0 then [d] else [])"
        by blast
      define E where "E = Downloaded n d (s, out, Some msg) # c @ sl @ ev"
      have 1: "h' = h @ E" using ev by (simp add: E_def)
      have 2: "answered env h E"
        using p1 resp' unfolding E_def by (simp add: c_plain sl_plain)
      from p2 have "numbered (Some (n, d)) ev" by simp
      then have 3: "\<forall>l. n = 0 \<or> l = Some (n - 1, d) \<longrightarrow> numbered l E"
        using n unfolding E_def by (simp add: c_plain sl_plain)
      have 4: "calls d' E \<le> (if d' = d then expRetryN - n else 0)"
        using p3 n unfolding E_def by (auto simp: c_plain sl_plain)
      from p4 have "first_attempts ev = []" by simp
      then have 5: "first_attempts E = (if n = 0 then [d] else [])"
        unfolding E_def by (simp add: first c_plain sl_plain)
      show ?thesis by (intro exI [of _ E] conjI; fact)
    qed
  qed
qed


lemma loop_run:
  fixes env :: "('d, 'o) env"
  shows "downloaders_loop env ds acc h = ((out, err), h') \<Longrightarrow>
     \<exists>ev. h' = h @ ev \<and> answered env h ev \<and> (\<forall>l. numbered l ev) \<and>
          calls d' ev \<le> expRetryN * count_list ds d' \<and>
          first_attempts ev = take (length (first_attempts ev)) ds \<and>
          (all_failed ev \<longrightarrow> first_attempts ev = ds)"
proof (induction ds arbitrary: acc h)
  case Nil
  then show ?case by (intro exI [of _ "[]"]) simp
next
  case (Cons d ds)
  obtain r h1 where r: "retries env d 0 acc h = (r, h1)" by (cases "retries env d 0 acc h")
  from retries_run [OF r, of d'] obtain ev where ev: "h1 = h @ ev"
    and p1: "answered env h ev"
    and p2': "\<forall>l. (0::nat) = 0 \<or> l = Some (0 - 1, d) \<longrightarrow> numbered l ev"
    and p3': "calls d' ev \<le> (if d' = d then expRetryN - 0 else 0)"
    and p4': "first_attempts ev = (if (0::nat) = 0 then [d] else [])"
    by blast
  from p2' have p2: "\<forall>l. numbered l ev" by simp
  from p3' have p3: "calls d' ev \<le> (if d' = d then expRetryN else 0)" by (auto split: if_splits)
  from p4' have p4: "first_attempts ev = [d]" by simp
  from retries_agg [OF r] ev have fail: "\<not> all_failed ev" if "r = Return b" for b
    using that by auto
  show ?case
  proof (cases r)
    case (Return b)
    with Cons.prems r have 1: "h' = h @ ev" using ev by auto
    have 4: "calls d' ev \<le> expRetryN * count_list (d # ds) d'" using p3 by auto
    have 5: "first_attempts ev = take (length (first_attempts ev)) (d # ds)" using p4 by simp
    have 6: "all_failed ev \<longrightarrow> first_attempts ev = d # ds" using fail [OF Return] by simp
    show ?thesis by (intro exI [of _ ev] conjI; fact)
  next
    case (Next_downloader acc')
    with Cons.prems r have "downloaders_loop env ds acc' h1 = ((out, err), h')" by simp
    from Cons.IH [OF this] obtain ev' where ev': "h' = h1 @ ev'"
      and q1: "answered env h1 ev'" and q2: "\<forall>l. numbered l ev'"
      and q3: "calls d' ev' \<le> expRetryN * count_list ds d'"
      and q4: "first_attempts ev' = take (length (first_attempts ev')) ds"
      and q5: "all_failed ev' \<longrightarrow> first_attempts ev' = ds"
      by blast
    have 1: "h' = h @ (ev @ ev')" using ev ev' by simp
    have 2: "answered env h (ev @ ev')" using p1 q1 ev by (simp add: answered_append)
    have 3: "\<forall>l. numbered l (ev @ ev')" using p2 q2 by (simp add: numbered_append)
    have 4: "calls d' (ev @ ev') \<le> expRetryN * count_list (d # ds) d'" using p3 q3 by auto
    have 5: "first_attempts (ev @ ev') = take (length (first_attempts (ev @ ev'))) (d # ds)"
      using p4 q4 by simp
    have 6: "all_failed (ev @ ev') \<longrightarrow> first_attempts (ev @ ev') = d # ds" using p4 q5 by simp
    show ?thesis by (intro exI [of _ "ev @ ev'"] conjI; fact)
  qed
qed

lemma retry_after_sleep_append:
  "retry_after_sleep b x \<Longrightarrow> (\<And>b'. retry_after_sleep b' y) \<Longrightarrow> retry_after_sleep b (x @ y)"
proof (induction x arbitrary: b)
  case Nil
  then show ?case by simp
next
  case (Cons e x)
  then show ?case by (cases e) simp_all
qed

lemma retries_slept:
  fixes env :: "('d, 'o) env"
  shows "retries env d n acc h = (r, h') \<Longrightarrow>
     \<exists>ev. h' = h @ ev \<and> (\<forall>b. n = 0 \<or> b \<longrightarrow> retry_after_sleep b ev)"
proof (induction "expRetryN - n" arbitrary: n acc h)
  case 0
  then have "h' = h" by (simp_all add: retries_done)
  then show ?case by (intro exI [of _ "[]"]) simp
next
  case (Suc k)
  then have n: "n < expRetryN" by simp
  obtain s out err where resp: "env h d = (s, out, err)" by (cases "env h d")
  show ?case
  proof (cases err)
    case None
    from retries_success [where env = env and h = h and d = d and acc = acc, OF n resp [unfolded None]]
      Suc.prems
    have "h' = h @ [Downloaded n d (s, out, None)]" by simp
    then show ?thesis by (intro exI [of _ "[Downloaded n d (s, out, None)]"]) simp
  next
    case (Some msg)
    define c where "c = (case out of None \<Rightarrow> [] | Some body \<Rightarrow> [Closed body :: ('d, 'o) event])"
    note resp' = resp [unfolded Some]
    have c_plain: "retry_after_sleep False c" by (simp add: c_def split: option.splits)
    have c_then: "retry_after_sleep False (c @ Slept t # x) = retry_after_sleep True x" for t x
      by (simp add: c_def split: option.splits)
    show ?thesis
    proof (cases "isAccessIssueHttpStatusCode s \<or> (s \<noteq> - 1 \<and> \<not> isTransientHttpStatusCode s)")
      case True
      from retries_abandon [where env = env and h = h and d = d and acc = acc, OF n resp' True] Suc.prems
      have "h' = h @ Downloaded n d (s, out, Some msg) # c" by (simp add: c_def)
      then show ?thesis using c_plain
        by (intro exI [of _ "Downloaded n d (s, out, Some msg) # c"]) simp
    next
      case False
      then have na: "\<not> isAccessIssueHttpStatusCode s" and tr: "s = - 1 \<or> isTransientHttpStatusCode s"
        by auto
      note again = retries_again [where env = env and h = h and d = d and acc = acc, OF n resp' na tr]
      show ?thesis
      proof (cases "n \<noteq> expRetryN - 1")
        case True
        have "retries env d n acc h = (r, h')" by (rule Suc.prems)
        with again True
        obtain acc' where eq: "retries env d (n + 1) acc'
            (h @ Downloaded n d (s, out, Some msg) # c @ [Slept (backoff n)]) = (r, h')"
          by (simp add: c_def)
        have k: "k = expRetryN - (n + 1)" using Suc.hyps(2) by simp
        from Suc.hyps(1) [OF k eq] obtain ev
          where ev: "h' = (h @ Downloaded n d (s, out, Some msg) # c @ [Slept (backoff n)]) @ ev"
            and p: "\<forall>b. n + 1 = 0 \<or> b \<longrightarrow> retry_after_sleep b ev"
          by blast
        define E where "E = Downloaded n d (s, out, Some msg) # c @ Slept (backoff n) # ev"
        from spec [OF p, of True] have t: "retry_after_sleep True ev" by simp
        have 1: "h' = h @ E" using ev by (simp add: E_def)
        have 2: "\<forall>b. n = 0 \<or> b \<longrightarrow> retry_after_sleep b E"
          using t unfolding E_def by (simp add: c_then)
        show ?thesis by (intro exI [of _ E] conjI; fact)
      next
        case False
        then have last: "expRetryN \<le> n + 1" by simp
        define E where "E = Downloaded n d (s, out, Some msg) # c"
        have "retries env d n acc h = (r, h')" by (rule Suc.prems)
        then have 1: "h' = h @ E"
          unfolding again retries_done [OF last] using False by (simp add: c_def E_def)
        have 2: "\<forall>b. n = 0 \<or> b \<longrightarrow> retry_after_sleep b E"
          using c_plain by (simp add: E_def)
        show ?thesis by (intro exI [of _ E] conjI; fact)
      qed
    qed
  qed
qed

lemma loop_slept:
  fixes env :: "('d, 'o) env"
  shows "downloaders_loop env ds acc h = (res, h') \<Longrightarrow>
     \<exists>ev. h' = h @ ev \<and> (\<forall>b. retry_after_sleep b ev)"
proof (induction ds arbitrary: acc h)
  case Nil
  then show ?case by (intro exI [of _ "[]"]) auto
next
  case (Cons d ds)
  obtain r h1 where r: "retries env d 0 acc h = (r, h1)" by (cases "retries env d 0 acc h")
  from retries_slept [OF r] obtain ev where ev: "h1 = h @ ev" and p: "\<forall>b. retry_after_sleep b ev"
    by auto
  show ?case
  proof (cases r)
    case (Return b)
    with Cons.prems r have "h' = h @ ev" using ev by auto
    with p show ?thesis by (intro exI [of _ ev]) simp
  next
    case (Next_downloader acc')
    with Cons.prems r have "downloaders_loop env ds acc' h1 = (res, h')" by simp
    from Cons.IH [OF this] obtain ev' where ev': "h' = h1 @ ev'" and q: "\<forall>b. retry_after_sleep b ev'"
      by blast
    have "h' = h @ (ev @ ev')" using ev ev' by simp
    moreover have "\<forall>b. retry_after_sleep b (ev @ ev')" using p q by (simp add: retry_after_sleep_append)
    ultimately show ?thesis by (intro exI [of _ "ev @ ev'"] conjI)
  qed
qed

lemma WithRetries_general:
  fixes env :: "('d, 'o) env"
  assumes w: "WithRetries env ds = (res, h)"
  shows "downloads h \<le> expRetryN * length ds \<and> sleep_then_retry h \<and> no_trailing_sleep h \<and>
         calls d' h \<le> expRetryN * count_list ds d' \<and> numbered None h \<and>
         retry_after_sleep False h \<and> answered env [] h \<and>
         first_attempts h = take (length (first_attempts h)) ds"
proof -
  obtain out err where res: "res = (out, err)" by (cases res)
  from loop_sleeps [OF w [unfolded WithRetries_def]]
  have a: "downloads h \<le> expRetryN * length ds \<and> sleep_then_retry h \<and> no_trailing_sleep h" by auto
  from loop_run [OF w [unfolded WithRetries_def res], of d']
  have b: "calls d' h \<le> expRetryN * count_list ds d' \<and> numbered None h \<and> answered env [] h \<and>
         first_attempts h = take (length (first_attempts h)) ds" by auto
  from loop_slept [OF w [unfolded WithRetries_def]]
  have c: "retry_after_sleep False h" by auto
  from a b c show ?thesis by simp
qed


subsection \<open>The download engine\<close>

text \<open>
  C10. For the empty list of downloaders, WithRetries returns a nil response body and a
  nil error, and does nothing: no download is attempted and no sleep is taken.
\<close>

theorem WithRetries_empty:
  "WithRetries env [] = ((None, None), [])"
  by (simp add: WithRetries_def)




text \<open>
  C3. When every attempt of the first downloader fails with an access-issue status
  (401, 403, 404 or 409) and the second downloader always answers 200 with a body and
  no error, WithRetries calls each of the two exactly once, never sleeps, and returns
  the second downloader's body with no error, whatever follows in the list.
\<close>

theorem WithRetries_access_issue_switches:
  assumes first: "\<And>h. \<exists>s out msg. env h d1 = (s, out, Some msg) \<and> isAccessIssueHttpStatusCode s"
    and second: "\<And>h. env h d2 = (200, Some body, None)"
  shows "case WithRetries env (d1 # d2 # ds) of
           ((out, err), h) \<Rightarrow>
             out = Some body \<and> err = None \<and> calls d1 h = 1 \<and> calls d2 h = 1 \<and> sleeps h = []"
proof -
  obtain s out msg where r1: "env [] d1 = (s, out, Some msg)" and acc: "isAccessIssueHttpStatusCode s"
    using first [of "[]"] by blast
  have ne: "d1 \<noteq> d2" using r1 second [of "[]"] by auto
  show ?thesis
    using r1 acc ne second
    by (cases out) (simp_all add: retries.simps [of env] run_simps)
qed

text \<open>The 404 downloader followed by the 200 downloader.\<close>

theorem WithRetries_access_issue_switches_witness:
  "WithRetries mock_404_then_200 [0, 1] =
     ((Some ''body'', None),
      [Downloaded 0 0 (404, None, Some ''404 Not Found''), Downloaded 0 1 (200, Some ''body'', None)])"
proof -
  have "case WithRetries mock_404_then_200 [0, 1] of
           ((out, err), h) \<Rightarrow>
             out = Some ''body'' \<and> err = None \<and> calls 0 h = 1 \<and> calls 1 h = 1 \<and> sleeps h = []"
    by (rule WithRetries_access_issue_switches) (simp_all add: mock_404_then_200_def status_defs)
  then show ?thesis
    by (simp add: retries.simps [of mock_404_then_200] mock_404_then_200_def run_simps)
qed

text \<open>
  C4. A single downloader answered 429 (with an error) on its first two calls and 200
  on the third: WithRetries calls it three times, sleeps exactly twice, 3 seconds and
  then 6 seconds, and returns the body of the third attempt with no error. In general,
  for every environment and list: each downloader is called at most \<open>expRetryN = 3\<close>
  times for each of its places in the list, with the retry numbers 0, 1, 2 in turn, each
  retry being of the downloader just attempted; the downloaders are taken in the order
  of the list; every response is the environment's answer; every sleep is at once
  followed by a retry and lasts the backoff of the failed attempt, every retry comes at
  once after a sleep (so no sleep follows the last attempt of a downloader), and the
  run does not end on a sleep.
\<close>

theorem WithRetries_backoff_schedule:
  fixes env :: "('d, 'o) env"
  assumes transient: "\<And>h. calls d h < 2 \<Longrightarrow> \<exists>out msg. env h d = (429, out, Some msg)"
    and healed: "\<And>h. calls d h = 2 \<Longrightarrow> env h d = (200, Some body, None)"
  shows "(case WithRetries env [d] of
            ((out, err), h) \<Rightarrow>
              out = Some body \<and> err = None \<and> calls d h = 3 \<and>
              sleeps h = [3 * Second, 6 * Second]) \<and>
         (case WithRetries env' ds of
            (res, h) \<Rightarrow>
              downloads h \<le> expRetryN * length ds \<and> sleep_then_retry h \<and> no_trailing_sleep h \<and>
              calls d' h \<le> expRetryN * count_list ds d' \<and> numbered None h \<and>
              retry_after_sleep False h \<and> answered env' [] h \<and>
              first_attempts h = take (length (first_attempts h)) ds)"
proof -
  obtain o1 m1 where r1: "env [] d = (429, o1, Some m1)"
    using transient [of "[]"] by auto
  define c1 where "c1 = (case o1 of None \<Rightarrow> [] | Some b \<Rightarrow> [Closed b :: ('d, 'o) event])"
  define h1 where "h1 = Downloaded 0 d (429, o1, Some m1) # c1 @ [Slept (backoff 0)]"
  have calls1: "calls d h1 = 1" by (simp add: h1_def c1_def split: option.splits)
  obtain o2 m2 where r2: "env h1 d = (429, o2, Some m2)"
    using transient [of h1] calls1 by auto
  define c2 where "c2 = (case o2 of None \<Rightarrow> [] | Some b \<Rightarrow> [Closed b :: ('d, 'o) event])"
  define h2 where "h2 = h1 @ Downloaded (Suc 0) d (429, o2, Some m2) # c2 @ [Slept (backoff (Suc 0))]"
  have calls_app: "calls d (a @ b) = calls d a + calls d b" for a b :: "('d, 'o) event list"
    by (induction a rule: calls.induct) simp_all
  have sleeps_app: "sleeps (a @ b) = sleeps a @ sleeps b" for a b :: "('d, 'o) event list"
    by (induction a rule: sleeps.induct) simp_all
  have calls2: "calls d h2 = 2" using calls1 by (simp add: h2_def c2_def calls_app split: option.splits)
  have r3: "env h2 d = (200, Some body, None)" using healed [OF calls2] .
  have t: "isTransientHttpStatusCode 429" "\<not> isAccessIssueHttpStatusCode 429" by (simp_all add: status_defs)
  have s1: "retries env d 0 None [] = retries env d 1 (Some (Err m1)) h1"
    using retries_again [where env = env and h = "[]" and d = d and acc = None and n = 0, OF _ r1]
    by (simp add: t expRetryN_def h1_def c1_def)
  have s2: "retries env d 1 (Some (Err m1)) h1 = retries env d (Suc (Suc 0)) (Some (Wrapf (Err m1) (attempt_format (Suc 0) m2))) h2"
    using retries_again [where env = env and h = h1 and d = d and acc = "Some (Err m1)" and n = "Suc 0", OF _ r2]
    by (simp add: t expRetryN_def h2_def c2_def)
  have s3: "retries env d (Suc (Suc 0)) (Some (Wrapf (Err m1) (attempt_format (Suc 0) m2))) h2
      = (Return (Some body), h2 @ [Downloaded (Suc (Suc 0)) d (200, Some body, None)])"
    using retries_success [where env = env and h = h2 and d = d and n = "Suc (Suc 0)", OF _ r3]
    by (simp add: expRetryN_def)
  have sl: "sleeps h2 = [3 * Second, 6 * Second]"
    by (simp add: h2_def h1_def c1_def c2_def sleeps_app backoff_Suc split: option.splits)
  have A: "case WithRetries env [d] of
            ((out, err), h) \<Rightarrow>
              out = Some body \<and> err = None \<and> calls d h = 3 \<and>
              sleeps h = [3 * Second, 6 * Second]"
  proof -
    have "retries env d 0 None [] = (Return (Some body), h2 @ [Downloaded (Suc (Suc 0)) d (200, Some body, None)])"
      by (simp only: s1 s2 s3)
    then show ?thesis
      using calls2 sl by (simp add: WithRetries_def calls_app sleeps_app)
  qed
  obtain res h where w: "WithRetries env' ds = (res, h)" by (cases "WithRetries env' ds")
  from WithRetries_general [OF w, of d']
  have B: "case WithRetries env' ds of
            (res, h) \<Rightarrow>
              downloads h \<le> expRetryN * length ds \<and> sleep_then_retry h \<and> no_trailing_sleep h \<and>
              calls d' h \<le> expRetryN * count_list ds d' \<and> numbered None h \<and>
              retry_after_sleep False h \<and> answered env' [] h \<and>
              first_attempts h = take (length (first_attempts h)) ds"
    using w by simp
  from A B show ?thesis ..
qed

text \<open>The server that heals at the third call.\<close>

theorem WithRetries_backoff_schedule_witness:
  "WithRetries healing_429 [()] =
     ((Some ''body'', None),
      [Downloaded 0 () (429, None, Some ''429 Too Many Requests''), Slept 3000000000,
       Downloaded 1 () (429, None, Some ''429 Too Many Requests''), Slept 6000000000,
       Downloaded 2 () (200, Some ''body'', None)])"
proof -
  have "(case WithRetries healing_429 [()] of
            ((out, err), h) \<Rightarrow>
              out = Some ''body'' \<and> err = None \<and> calls () h = 3 \<and>
              sleeps h = [3 * Second, 6 * Second]) \<and>
         (case WithRetries healing_429 [()] of
            (res, h) \<Rightarrow>
              downloads h \<le> expRetryN * length [()] \<and> sleep_then_retry h \<and> no_trailing_sleep h \<and>
              calls () h \<le> expRetryN * count_list [()] () \<and> numbered None h \<and>
              retry_after_sleep False h \<and> answered healing_429 [] h \<and>
              first_attempts h = take (length (first_attempts h)) [()])"
    by (rule WithRetries_backoff_schedule) (simp_all add: healing_429_def)
  then show ?thesis
    by (simp add: retries.simps [of healing_429] healing_429_def run_simps Second_def)
qed

text \<open>
  C8, as the code has it. When no attempt of the run succeeded, every downloader of the
  list was attempted, in order, every response being the environment's answer, and
  WithRetries returns a nil body and the aggregate of all failed attempts: the error of
  the first attempt is the root cause, and each later attempt wraps the chain so far by
  \<^verbatim>\<open>errors.Wrapf\<close>, its format being the text \<open>Attempt k: msg \<close> made of the attempt's
  number within its downloader and its message. Where no message holds a percent sign
  (the format is then the message), the messages read from the returned error come in
  reverse order of the attempts: the last attempt's first, the message of attempt 1 of
  the first downloader last; and so does the text of \<^verbatim>\<open>Error()\<close>.
\<close>

theorem WithRetries_aggregate_error:
  fixes env :: "('d, 'o) env"
  assumes run: "WithRetries env ds = ((out, err), h)" and failed: "all_failed h"
  shows "out = None \<and> err = aggregate (failures h) \<and>
         answered env [] h \<and> first_attempts h = ds \<and>
         (percent_free (failures h) \<longrightarrow>
            map_option messages err =
              (if failures h = [] then None else Some (Some (rev (attempt_messages (failures h))))) \<and>
            map_option Error err =
              (if failures h = [] then None else Some (Some (aggregate_text (failures h)))))"
proof -
  from loop_agg [OF run [unfolded WithRetries_def]] failed
  have a: "out = None" and b: "err = aggregate (failures h)"
    by (auto simp: aggregate_from_def)
  from loop_run [OF run [unfolded WithRetries_def], of undefined] failed
  have c: "answered env [] h" and d: "first_attempts h = ds" by auto
  have m: "map_option messages (aggregate fs) =
      (if fs = [] then None else Some (Some (rev (attempt_messages fs))))" if "percent_free fs" for fs
    using that by (cases fs) (auto simp: messages_foldl)
  have e: "map_option Error (aggregate fs) =
      (if fs = [] then None else Some (Some (aggregate_text fs)))" if "percent_free fs" for fs
    using that by (cases fs) (auto simp: Error_foldl)
  from a b c d m e show ?thesis by simp
qed

text \<open>Two downloaders, both answered 403.\<close>

theorem WithRetries_aggregate_error_witness:
  "fst (WithRetries mock_403 [0, 1]) =
     (None, Some (Wrapf (Err ''first 403 Forbidden'') ''Attempt 1: second 403 Forbidden '')) \<and>
   first_attempts (snd (WithRetries mock_403 [0, 1])) = [0, 1] \<and>
   map_option Error (snd (fst (WithRetries mock_403 [0, 1]))) =
     Some (Some ''Attempt 1: second 403 Forbidden : first 403 Forbidden'')"
proof -
  have w: "WithRetries mock_403 [0, 1] =
     ((None, Some (Wrapf (Err ''first 403 Forbidden'') ''Attempt 1: second 403 Forbidden '')),
      [Downloaded 0 0 (403, None, Some ''first 403 Forbidden''),
       Downloaded 0 1 (403, None, Some ''second 403 Forbidden'')])"
    by (simp add: retries.simps [of mock_403] mock_403_def run_simps)
  have af: "all_failed [Downloaded 0 (0::nat) (403, None :: string option, Some ''first 403 Forbidden''),
       Downloaded 0 1 (403, None, Some ''second 403 Forbidden'')]" by simp
  show ?thesis unfolding w using WithRetries_aggregate_error [OF w af]
    by (simp add: attempt_format_values)
qed

text \<open>
  C8, as stated, fails: in the error returned for the two 403 downloaders, the message
  of the second downloader's attempt comes first and the message of attempt 1 of the
  first downloader comes last, in the chain and in the text of \<^verbatim>\<open>Error()\<close>.
\<close>

theorem WithRetries_aggregate_latest_first:
  "fst (WithRetries mock_403 [0, 1]) =
     (None, Some (Wrapf (Err ''first 403 Forbidden'') ''Attempt 1: second 403 Forbidden '')) \<and>
   messages (Wrapf (Err ''first 403 Forbidden'') ''Attempt 1: second 403 Forbidden '') =
     Some [''Attempt 1: second 403 Forbidden '', ''first 403 Forbidden''] \<and>
   Error (Wrapf (Err ''first 403 Forbidden'') ''Attempt 1: second 403 Forbidden '') =
     Some ''Attempt 1: second 403 Forbidden : first 403 Forbidden''"
  by (simp add: retries.simps [of mock_403] mock_403_def run_simps)

subsection \<open>The sequence guard\<close>

text \<open>
  C1. Where the marker can be read: a candidate \<open>v1\<close> at most the persisted version
  \<open>v2\<close> is answered "already processed" (\<open>shouldExit\<close> true, no error) and the marker
  files are left as they were, so the marker still holds \<open>v2\<close>; a candidate above the
  persisted version, or any candidate when nothing is persisted, is saved (where the
  marker can be written) and answered "proceed" (\<open>shouldExit\<close> false, no error); and
  after a check of \<open>w2\<close>, a check of any \<open>w1\<close> at most \<open>w2\<close> is answered "already
  processed" and changes nothing.
\<close>

theorem checkAndSaveSeqNum_monotone:
  assumes "\<not> unreadable fs p"
  shows "(persisted fs p = Some v2 \<and> v1 \<le> v2 \<longrightarrow>
            checkAndSaveSeqNum v1 p fs = ((True, None), fs)) \<and>
         ((persisted fs p = None \<or> (\<exists>v. persisted fs p = Some v \<and> v < c)) \<and> \<not> unwritable fs p \<longrightarrow>
            checkAndSaveSeqNum c p fs = ((False, None), fs\<lparr>persisted := (persisted fs)(p \<mapsto> c)\<rparr>)) \<and>
         (w1 \<le> w2 \<and> \<not> unwritable fs p \<longrightarrow>
            (case checkAndSaveSeqNum w2 p fs of
               (r, fs') \<Rightarrow> checkAndSaveSeqNum w1 p fs' = ((True, None), fs')))"
  using assms by (auto simp: checkAndSaveSeqNum_def IsSmallerThan_def SaveSeqNum_def split: option.splits)

text \<open>Candidates 5, 7 and 8 against a marker at 7, and a candidate for a marker that does
  not exist.\<close>

theorem checkAndSaveSeqNum_monotone_witness:
  "checkAndSaveSeqNum 5 ''mrseq'' marker_at_7 = ((True, None), marker_at_7) \<and>
   checkAndSaveSeqNum 7 ''mrseq'' marker_at_7 = ((True, None), marker_at_7) \<and>
   checkAndSaveSeqNum 8 ''mrseq'' marker_at_7 =
     ((False, None), marker_at_7\<lparr>persisted := (persisted marker_at_7)(''mrseq'' \<mapsto> 8)\<rparr>) \<and>
   checkAndSaveSeqNum 0 ''other'' marker_at_7 =
     ((False, None), marker_at_7\<lparr>persisted := (persisted marker_at_7)(''other'' \<mapsto> 0)\<rparr>)"
  using checkAndSaveSeqNum_monotone [of marker_at_7 "''mrseq''" 7 5 8 0 0] checkAndSaveSeqNum_monotone [of marker_at_7 "''mrseq''" 7 7 8 0 0]
    checkAndSaveSeqNum_monotone [of marker_at_7 "''other''" 0 0 0 0 0]
  by (simp add: marker_at_7_def)


subsection \<open>The append cursor\<close>

text \<open>
  C6. With a sink configured, the cursor that appendToBlob returns is never below the
  cursor it was given. When no error is returned, it is the given cursor plus the
  number of bytes of the source file from the given cursor to its end (nothing, when no
  new bytes exist); when reading or appending fails, and when no block is sent, it is
  the given cursor unchanged. Every block handed to the sink is non-empty and is the
  content of the file from the cursor on, so no byte below the cursor is sent again.
  Case by case: when the file has bytes from the cursor on, exactly these are handed to
  the sink, once, and the cursor advances by their number with no error when the sink
  accepts them, and stays with the sink's error when it refuses them; when the file
  has none, nothing is sent and the cursor stays, with no error; when the file cannot
  be read, nothing is sent and the cursor stays, with the read error.
\<close>

theorem appendToBlob_cursor:
  assumes sink: "appendBlobRef \<noteq> None \<or> appendBlobClient \<noteq> None"
    and run: "appendToBlob files svc path appendBlobRef appendBlobClient cursor = ((cursor', err), sent)"
  shows "cursor \<le> cursor' \<and>
         (err = None \<longrightarrow>
            (\<exists>content. files path = Some content \<and>
               cursor' = cursor + int (length (drop (nat cursor) content)))) \<and>
         (err \<noteq> None \<longrightarrow> cursor' = cursor) \<and>
         (sent = [] \<longrightarrow> cursor' = cursor) \<and>
         (\<forall>block \<in> set sent.
            block \<noteq> [] \<and> (\<exists>content. files path = Some content \<and> block = drop (nat cursor) content)) \<and>
         (\<forall>content. files path = Some content \<and> 0 \<le> cursor \<and> drop (nat cursor) content \<noteq> [] \<longrightarrow>
            sent = [drop (nat cursor) content] \<and>
            (case sink_answer svc appendBlobRef appendBlobClient (drop (nat cursor) content) of
               None \<Rightarrow> cursor' = cursor + int (length (drop (nat cursor) content)) \<and> err = None
             | Some e \<Rightarrow> cursor' = cursor \<and> err = Some (Append_failed e))) \<and>
         (\<forall>content. files path = Some content \<and> 0 \<le> cursor \<and> drop (nat cursor) content = [] \<longrightarrow>
            cursor' = cursor \<and> err = None \<and> sent = []) \<and>
         (files path = None \<or> cursor < 0 \<longrightarrow> cursor' = cursor \<and> err = Some Read_failed \<and> sent = [])"
  using assms
  by (auto simp: appendToBlob_def GetFileFromPosition_def sink_answer_def Let_def
      split: option.splits if_splits)

text \<open>Eleven bytes of output: from cursor 6 the last five are sent and the cursor moves
  to 11 when the sink accepts them, and stays at 6 when it refuses them; from cursor
  11 nothing is sent.\<close>

theorem appendToBlob_cursor_witness:
  "appendToBlob stdout_file accepting ''stdout'' (Some ()) None 6 = ((11, None), [''world'']) \<and>
   appendToBlob stdout_file refusing ''stdout'' None (Some ()) 6 =
     ((6, Some (Append_failed ''409 Conflict'')), [''world'']) \<and>
   appendToBlob stdout_file accepting ''stdout'' (Some ()) None 11 = ((11, None), [])"
proof -
  have a: "appendToBlob stdout_file accepting ''stdout'' (Some ()) None 6 = ((11, None), [''world''])"
    by (simp add: appendToBlob_def GetFileFromPosition_def stdout_file_def accepting_def)
  have b: "appendToBlob stdout_file refusing ''stdout'' None (Some ()) 6 =
     ((6, Some (Append_failed ''409 Conflict'')), [''world''])"
    by (simp add: appendToBlob_def GetFileFromPosition_def stdout_file_def refusing_def)
  have c: "appendToBlob stdout_file accepting ''stdout'' (Some ()) None 11 = ((11, None), [])"
    by (simp add: appendToBlob_def GetFileFromPosition_def stdout_file_def accepting_def)
  from appendToBlob_cursor [OF _ a] appendToBlob_cursor [OF _ b] appendToBlob_cursor [OF _ c] a b c show ?thesis by simp
qed



subsection \<open>Creating the blobs\<close>

lemma createOrReplaceAppendBlob_result:
  assumes "blobUri \<noteq> []"
  shows "snd (createOrReplaceAppendBlob st blobUri sasToken mi) =
           (if sasToken \<noteq> [] then [SAS_token] else []) @
           (if sasToken = [] \<or> sas_fails st blobUri sasToken then [Managed_identity] else [])"
    and "(snd (snd (fst (createOrReplaceAppendBlob st blobUri sasToken mi))) \<noteq> None) =
           every_path_fails st blobUri sasToken mi"
  using assms
  by (auto simp: createOrReplaceAppendBlob_def every_path_fails_def sas_fails_def identity_fails_def
      Let_def split: prod.splits option.splits)


text \<open>
  C7. For a blob URI that is configured, createOrReplaceAppendBlob tries the SAS token
  first, when one is given, and the managed identity after it exactly when no SAS token
  is given or the SAS attempt failed; it returns an error exactly when every path it
  could take failed. The blob step of \<^verbatim>\<open>enable\<close> leaves the command with the
  blob-create-or-replace exit code exactly when this happens for the output blob or for
  the error blob, a URI that is configured; otherwise the command goes on.
\<close>

theorem enable_blob_credentials:
  assumes "blobUri \<noteq> []"
  shows "snd (createOrReplaceAppendBlob st blobUri sasToken mi) =
           (if sasToken \<noteq> [] then [SAS_token] else []) @
           (if sasToken = [] \<or> sas_fails st blobUri sasToken then [Managed_identity] else []) \<and>
         (snd (snd (fst (createOrReplaceAppendBlob st blobUri sasToken mi))) \<noteq> None) =
           every_path_fails st blobUri sasToken mi \<and>
         (\<exists>e. fst (enable_create_blobs st code cfg) = Exit e code) =
           ((OutputBlobURI cfg \<noteq> [] \<and>
               every_path_fails st (OutputBlobURI cfg) (OutputBlobSASToken cfg)
                 (OutputBlobManagedIdentity cfg)) \<or>
            (ErrorBlobURI cfg \<noteq> [] \<and>
               every_path_fails st (ErrorBlobURI cfg) (ErrorBlobSASToken cfg)
                 (ErrorBlobManagedIdentity cfg))) \<and>
         ((\<exists>out err. fst (enable_create_blobs st code cfg) = Go_on out err) \<or>
          (\<exists>e. fst (enable_create_blobs st code cfg) = Exit e code))"
proof -
  have out: "(snd (snd (fst (createOrReplaceAppendBlob st (OutputBlobURI cfg) (OutputBlobSASToken cfg)
                 (OutputBlobManagedIdentity cfg)))) \<noteq> None) =
      every_path_fails st (OutputBlobURI cfg) (OutputBlobSASToken cfg) (OutputBlobManagedIdentity cfg)"
    if "OutputBlobURI cfg \<noteq> []"
    using createOrReplaceAppendBlob_result(2) [OF that] .
  have err: "(snd (snd (fst (createOrReplaceAppendBlob st (ErrorBlobURI cfg) (ErrorBlobSASToken cfg)
                 (ErrorBlobManagedIdentity cfg)))) \<noteq> None) =
      every_path_fails st (ErrorBlobURI cfg) (ErrorBlobSASToken cfg) (ErrorBlobManagedIdentity cfg)"
    if "ErrorBlobURI cfg \<noteq> []"
    using createOrReplaceAppendBlob_result(2) [OF that] .
  have 3: "(\<exists>e. fst (enable_create_blobs st code cfg) = Exit e code) =
           ((OutputBlobURI cfg \<noteq> [] \<and>
               every_path_fails st (OutputBlobURI cfg) (OutputBlobSASToken cfg)
                 (OutputBlobManagedIdentity cfg)) \<or>
            (ErrorBlobURI cfg \<noteq> [] \<and>
               every_path_fails st (ErrorBlobURI cfg) (ErrorBlobSASToken cfg)
                 (ErrorBlobManagedIdentity cfg)))"
    using out err
    by (cases "OutputBlobURI cfg = []"; cases "ErrorBlobURI cfg = []")
       (auto simp: enable_create_blobs_def Let_def split: prod.splits option.splits)
  have 4: "(\<exists>out err. fst (enable_create_blobs st code cfg) = Go_on out err) \<or>
          (\<exists>e. fst (enable_create_blobs st code cfg) = Exit e code)"
    by (auto simp: enable_create_blobs_def Let_def split: prod.splits option.splits)
  from createOrReplaceAppendBlob_result [OF assms, of st sasToken mi] 3 4 show ?thesis by blast
qed

text \<open>The SAS attempt fails and the managed identity succeeds: the command goes on; both
  fail: it exits.\<close>

theorem enable_blob_credentials_witness:
  "createOrReplaceAppendBlob sas_down_identity_up ''https://a/out'' ''sv=1'' None =
     ((None, Some ''client of https://a/out'', None), [SAS_token, Managed_identity]) \<and>
   fst (enable_create_blobs sas_down_identity_up 7 output_to_blob) =
     Go_on (None, Some ''client of https://a/out'') (None, None) \<and>
   fst (enable_create_blobs nothing_works 7 output_to_blob) =
     Exit (CreateOrReplace_failed (SAS_failed ''403 Forbidden'')) 7"
proof -
  have "''https://a/out'' \<noteq> []" by simp
  note enable_blob_credentials [OF this, of sas_down_identity_up "''sv=1''" None 7 output_to_blob]
  then show ?thesis
    by (simp add: createOrReplaceAppendBlob_def createOrReplaceAppendBlobUsingManagedIdentity_def
        enable_create_blobs_def sas_down_identity_up_def nothing_works_def output_to_blob_def)
qed


subsection \<open>The status file\<close>

lemma show_nat_not_star: "show_nat n \<noteq> ''*''"
  using show_nat_digits [of n] by auto

lemma split_last_star:
  assumes "CHR ''*'' \<in> set pattern"
  shows "pattern = rev (tl (dropWhile (\<lambda>c. c \<noteq> CHR ''*'') (rev pattern))) @ CHR ''*'' #
               rev (takeWhile (\<lambda>c. c \<noteq> CHR ''*'') (rev pattern))"
proof -
  define r where "r = rev pattern"
  define d where "d = dropWhile (\<lambda>c. c \<noteq> CHR ''*'') r"
  have "CHR ''*'' \<in> set r" using assms by (simp add: r_def)
  then have ne: "d \<noteq> []" by (auto simp: d_def dropWhile_eq_Nil_conv)
  then have "hd d = CHR ''*''" using hd_dropWhile [of "\<lambda>c. c \<noteq> CHR ''*''" r] by (simp add: d_def)
  with ne have d: "d = CHR ''*'' # tl d" by (cases d) simp_all
  have "r = takeWhile (\<lambda>c. c \<noteq> CHR ''*'') r @ d" by (simp add: d_def)
  then have "rev r = rev (takeWhile (\<lambda>c. c \<noteq> CHR ''*'') r @ CHR ''*'' # tl d)" using d by simp
  then show ?thesis by (simp add: r_def d_def)
qed

lemma temp_name_differs:
  assumes "prefixAndSuffix pattern = Some (prefix, suffix)"
  shows "prefix @ show_nat k @ suffix \<noteq> pattern"
proof (cases "CHR ''*'' \<in> set pattern")
  case False
  with assms have "prefix = pattern" "suffix = []" by (auto simp: prefixAndSuffix_def split: if_splits)
  then show ?thesis using show_nat_digits [of k] by simp
next
  case True
  with assms have "pattern = prefix @ CHR ''*'' # suffix"
    using split_last_star [OF True] by (auto simp: prefixAndSuffix_def split: if_splits)
  moreover have "show_nat k @ suffix \<noteq> CHR ''*'' # suffix"
    using show_nat_not_star [of k] by (simp add: append_eq_Cons_conv)
  ultimately show ?thesis by simp
qed

lemma draw_name_fresh:
  "draw_name env fs dir prefix suffix tries = Some name \<Longrightarrow>
     fs (dir, name) = None \<and> (\<exists>k. name = prefix @ show_nat k @ suffix)"
proof (induction env fs dir prefix suffix tries rule: draw_name.induct)
  case (1 env fs dir prefix suffix tries)
  show ?case
  proof (cases "tries < 10000 \<and> fs (dir, prefix @ show_nat (nextRandom env tries) @ suffix) \<noteq> None")
    case True
    then have "draw_name env fs dir prefix suffix tries = draw_name env fs dir prefix suffix (tries + 1)"
      by (subst draw_name.simps) (simp add: Let_def)
    with "1.prems" have "draw_name env fs dir prefix suffix (tries + 1) = Some name" by simp
    with "1.IH" True show ?thesis by (auto simp: Let_def)
  next
    case False
    with "1.prems" show ?thesis
      by (subst (asm) draw_name.simps) (auto simp: Let_def split: if_splits)
  qed
qed

lemma CreateTemp_fresh:
  assumes "CreateTemp env fs dir pattern = (Inr tmp, fs1)"
  shows "fs tmp = None \<and> fs1 = fs(tmp \<mapsto> []) \<and> fst tmp = (if dir = [] then TempDir env else dir) \<and>
         snd tmp \<noteq> pattern"
proof -
  from assms obtain prefix suffix name
    where ps: "prefixAndSuffix pattern = Some (prefix, suffix)"
      and dn: "draw_name env fs (if dir = [] then TempDir env else dir) prefix suffix 0 = Some name"
      and tmp: "tmp = (if dir = [] then TempDir env else dir, name)"
      and fs1: "fs1 = fs(tmp \<mapsto> [])"
    by (auto simp: CreateTemp_def Let_def split: option.splits prod.splits if_splits)
  from draw_name_fresh [OF dn] temp_name_differs [OF ps] tmp fs1 show ?thesis by auto
qed

lemma saveStatusReport_name:
  "(if extName \<noteq> [] then extName @ ''.'' @ show_int seqNo @ ''.status'' else show_int seqNo @ ''.status'')
     = status_file_name extName seqNo"
  by (simp add: status_file_name_def)

lemma saveStatusReport_cases:
  assumes run: "saveStatusReport env fs statusFolder extName seqNo doc = (err, states)"
  shows "(err \<noteq> None \<and> states = []) \<or>
         (\<exists>tmp k. fs tmp = None \<and> tmp \<noteq> (statusFolder, status_file_name extName seqNo) \<and>
            fst tmp = (if statusFolder = [] then TempDir env else statusFolder) \<and>
            ((err \<noteq> None \<and> states = [fs(tmp \<mapsto> []), fs(tmp \<mapsto> take k doc)]) \<or>
             (err \<noteq> None \<and> states = [fs(tmp \<mapsto> []), fs(tmp \<mapsto> doc), fs(tmp \<mapsto> doc)]) \<or>
             (err = None \<and> states = [fs(tmp \<mapsto> []), fs(tmp \<mapsto> doc),
                 (fs(tmp := None))((statusFolder, status_file_name extName seqNo) \<mapsto> doc)])))"
proof (cases "CreateTemp env fs statusFolder (status_file_name extName seqNo)")
  case (Pair r fs1)
  show ?thesis
  proof (cases r)
    case (Inl e)
    with Pair run show ?thesis
      by (auto simp: saveStatusReport_def Let_def saveStatusReport_name)
  next
    case (Inr tmp)
    from CreateTemp_fresh [OF Pair [unfolded Inr]]
    have f: "fs tmp = None" "fs1 = fs(tmp \<mapsto> [])"
      "fst tmp = (if statusFolder = [] then TempDir env else statusFolder)"
      "tmp \<noteq> (statusFolder, status_file_name extName seqNo)"
      by auto
    show ?thesis
    proof (cases "write_error env")
      case (Some k)
      with Pair Inr run f have "err \<noteq> None \<and> states = [fs(tmp \<mapsto> []), fs(tmp \<mapsto> take k doc)]"
        by (auto simp: saveStatusReport_def Let_def saveStatusReport_name WriteFile_def)
      with f show ?thesis by blast
    next
      case None
      show ?thesis
      proof (cases "rename_error env")
        case (Some e)
        with None Pair Inr run f
        have "err \<noteq> None \<and> states = [fs(tmp \<mapsto> []), fs(tmp \<mapsto> doc), fs(tmp \<mapsto> doc)]"
          by (auto simp: saveStatusReport_def Let_def saveStatusReport_name WriteFile_def Rename_def)
        with f show ?thesis by blast
      next
        case n2: None
        with None Pair Inr run f
        have "err = None \<and> states = [fs(tmp \<mapsto> []), fs(tmp \<mapsto> doc),
                 (fs(tmp := None))((statusFolder, status_file_name extName seqNo) \<mapsto> doc)]"
          by (auto simp: saveStatusReport_def Let_def saveStatusReport_name WriteFile_def Rename_def)
        with f show ?thesis by blast
      qed
    qed
  qed
qed

lemma status_name_3: "show_int 3 = ''3''"
  by (simp add: show_int_def show_nat.simps digit_def)

lemma draw_first:
  "fs (dir, prefix @ show_nat (nextRandom env 0) @ suffix) = None \<Longrightarrow>
     draw_name env fs dir prefix suffix 0 = Some (prefix @ show_nat (nextRandom env 0) @ suffix)"
  by (subst draw_name.simps) (simp add: Let_def)

lemma show_nat_42: "show_nat 42 = ''42''"
  by (simp add: show_nat.simps digit_def)

text \<open>
  C5. Whatever fails, after each operation of saveStatusReport the final path, the file
  \<open>[extName.]seqNo.status\<close> of the status folder, holds what it held before the call
  or the complete document, never a part of it. When saveStatusReport returns no
  error, it has created a new temporary file under a name other than the final one, in
  the status folder (the directory for temporary files stands in for an empty folder
  name, as \<^verbatim>\<open>os.CreateTemp\<close> has it), written the whole document to it, and renamed
  it over the final path.
\<close>

theorem saveStatusReport_atomic:
  assumes run: "saveStatusReport env fs statusFolder extName seqNo doc = (err, states)"
  shows "(\<forall>s \<in> set states.
            s (statusFolder, status_file_name extName seqNo) = fs (statusFolder, status_file_name extName seqNo) \<or>
            s (statusFolder, status_file_name extName seqNo) = Some doc) \<and>
         (err = None \<longrightarrow>
            (\<exists>tmp. fs tmp = None \<and> tmp \<noteq> (statusFolder, status_file_name extName seqNo) \<and>
               fst tmp = (if statusFolder = [] then TempDir env else statusFolder) \<and>
               states = [fs(tmp \<mapsto> []), fs(tmp \<mapsto> doc),
                 (fs(tmp := None))((statusFolder, status_file_name extName seqNo) \<mapsto> doc)]))"
  using saveStatusReport_cases [OF run] by (elim disjE exE conjE) auto


text \<open>Sequence number 3 with no extension name, over an old status file.\<close>

theorem saveStatusReport_atomic_witness:
  "saveStatusReport quiet_os old_status ''/var/lib/waagent/status'' [] 3 ''new'' =
     (None,
      [old_status((''/var/lib/waagent/status'', ''3.status42'') \<mapsto> []),
       old_status((''/var/lib/waagent/status'', ''3.status42'') \<mapsto> ''new''),
       (old_status((''/var/lib/waagent/status'', ''3.status42'') := None))
         ((''/var/lib/waagent/status'', ''3.status'') \<mapsto> ''new'')])"
proof -
  have run: "saveStatusReport quiet_os old_status ''/var/lib/waagent/status'' [] 3 ''new'' =
     (None,
      [old_status((''/var/lib/waagent/status'', ''3.status42'') \<mapsto> []),
       old_status((''/var/lib/waagent/status'', ''3.status42'') \<mapsto> ''new''),
       (old_status((''/var/lib/waagent/status'', ''3.status42'') := None))
         ((''/var/lib/waagent/status'', ''3.status'') \<mapsto> ''new'')])"
    by (simp add: saveStatusReport_def CreateTemp_def prefixAndSuffix_def WriteFile_def Rename_def
      quiet_os_def old_status_def status_name_3 draw_first show_nat_42 Let_def)
  from saveStatusReport_atomic [OF run] run show ?thesis by simp
qed


subsection \<open>The two status reports\<close>

lemma local_file_example:
  "ReportStatusToLocalFile status_document quiet_os no_files ''/status'' [] 3 StatusSuccess
     cmd_enable ''done'' =
   (None,
    [no_files((''/status'', ''3.status42'') \<mapsto> []),
     no_files((''/status'', ''3.status42'') \<mapsto>
        ''{'' @ [CHR 0x0A, CHR 0x09] @ quoted ''status'' @ '': '' @ quoted ''success'' @ '','' @
        [CHR 0x0A, CHR 0x09] @ quoted ''name'' @ '': '' @ quoted ''enable'' @ '','' @
        [CHR 0x0A, CHR 0x09] @ quoted ''message'' @ '': '' @ quoted ''done'' @ [CHR 0x0A] @ ''}''),
     (no_files((''/status'', ''3.status42'') := None))((''/status'', ''3.status'') \<mapsto>
        ''{'' @ [CHR 0x0A, CHR 0x09] @ quoted ''status'' @ '': '' @ quoted ''success'' @ '','' @
        [CHR 0x0A, CHR 0x09] @ quoted ''name'' @ '': '' @ quoted ''enable'' @ '','' @
        [CHR 0x0A, CHR 0x09] @ quoted ''message'' @ '': '' @ quoted ''done'' @ [CHR 0x0A] @ ''}'')])"
  by (simp add: ReportStatusToLocalFile_def getRootStatusJson_def status_document_def cmd_enable_def
      saveStatusReport_def CreateTemp_def prefixAndSuffix_def WriteFile_def Rename_def
      quiet_os_def no_files_def status_name_3 draw_first show_nat_42 MarshalIndent_def newline_def
      Let_def)

text \<open>
  C9, as the code has it. For a command that reports status, the body sent to the
  reporting endpoint and the content of the local status file are two serialisations
  of the same status report (same status type, command name and message): the
  endpoint gets the compact form of \<^verbatim>\<open>json.Marshal\<close>, the file the tab-indented form
  of \<^verbatim>\<open>json.MarshalIndent\<close>.
\<close>

theorem status_reports_same_value:
  assumes report: "ShouldReportStatus c"
    and encoded: "json_of types (NewStatusReport types statusType (Name c) msg) = Inr v"
    and saved: "ReportStatusToLocalFile types env fs StatusFolder ExtName SeqNum statusType c msg
                  = (None, states)"
  shows "snd (ReportStatusToBlob types ReportStatus statusType c msg) = [Marshal v] \<and>
         states \<noteq> [] \<and>
         last states (StatusFolder, status_file_name ExtName SeqNum) = Some (MarshalIndent v [] [CHR 0x09])"
proof -
  have blob: "snd (ReportStatusToBlob types ReportStatus statusType c msg) = [Marshal v]"
    using report encoded
    by (simp add: ReportStatusToBlob_def getRootStatusJson_def Let_def split: option.splits)
  from saved report encoded
  have "saveStatusReport env fs StatusFolder ExtName SeqNum (MarshalIndent v [] [CHR 0x09]) = (None, states)"
    by (auto simp: ReportStatusToLocalFile_def getRootStatusJson_def Let_def
        split: option.splits prod.splits)
  from saveStatusReport_cases [OF this]
  have "states \<noteq> [] \<and>
         last states (StatusFolder, status_file_name ExtName SeqNum) = Some (MarshalIndent v [] [CHR 0x09])"
    by auto
  with blob show ?thesis by simp
qed

text \<open>A success report of the enable command.\<close>

theorem status_reports_same_value_witness:
  "snd (ReportStatusToBlob status_document endpoint_accepts StatusSuccess cmd_enable ''done'') =
     [''{'' @ quoted ''status'' @ '':'' @ quoted ''success'' @ '','' @
      quoted ''name'' @ '':'' @ quoted ''enable'' @ '','' @
      quoted ''message'' @ '':'' @ quoted ''done'' @ ''}'']"
proof -
  have "json_of status_document (NewStatusReport status_document StatusSuccess (Name cmd_enable) ''done'')
      = Inr (Object [(quoted ''status'', Token (quoted ''success'')),
                     (quoted ''name'', Token (quoted ''enable'')),
                     (quoted ''message'', Token (quoted ''done''))])"
    by (simp add: status_document_def cmd_enable_def)
  from status_reports_same_value [OF _ this local_file_example, of endpoint_accepts] show ?thesis
    by (simp add: cmd_enable_def)
qed

text \<open>
  C9, as stated, fails: for the same status type, command and message, the body sent to
  the endpoint has no white space, the status file has a line and a tab per member, and
  the two differ byte for byte.
\<close>

theorem status_bodies_differ:
  "snd (ReportStatusToBlob status_document endpoint_accepts StatusSuccess cmd_enable ''done'') =
     [''{'' @ quoted ''status'' @ '':'' @ quoted ''success'' @ '','' @
      quoted ''name'' @ '':'' @ quoted ''enable'' @ '','' @
      quoted ''message'' @ '':'' @ quoted ''done'' @ ''}''] \<and>
   last (snd (ReportStatusToLocalFile status_document quiet_os no_files ''/status'' [] 3
                StatusSuccess cmd_enable ''done'')) (''/status'', ''3.status'') =
     Some (''{'' @ [CHR 0x0A, CHR 0x09] @ quoted ''status'' @ '': '' @ quoted ''success'' @ '','' @
        [CHR 0x0A, CHR 0x09] @ quoted ''name'' @ '': '' @ quoted ''enable'' @ '','' @
        [CHR 0x0A, CHR 0x09] @ quoted ''message'' @ '': '' @ quoted ''done'' @ [CHR 0x0A] @ ''}'') \<and>
   ''{'' @ quoted ''status'' @ '':'' @ quoted ''success'' @ '','' @
      quoted ''name'' @ '':'' @ quoted ''enable'' @ '','' @
      quoted ''message'' @ '':'' @ quoted ''done'' @ ''}'' \<noteq>
   ''{'' @ [CHR 0x0A, CHR 0x09] @ quoted ''status'' @ '': '' @ quoted ''success'' @ '','' @
        [CHR 0x0A, CHR 0x09] @ quoted ''name'' @ '': '' @ quoted ''enable'' @ '','' @
        [CHR 0x0A, CHR 0x09] @ quoted ''message'' @ '': '' @ quoted ''done'' @ [CHR 0x0A] @ ''}''"
proof (intro conjI)
  show "snd (ReportStatusToBlob status_document endpoint_accepts StatusSuccess cmd_enable ''done'') =
     [''{'' @ quoted ''status'' @ '':'' @ quoted ''success'' @ '','' @
      quoted ''name'' @ '':'' @ quoted ''enable'' @ '','' @
      quoted ''message'' @ '':'' @ quoted ''done'' @ ''}'']"
    by (simp add: ReportStatusToBlob_def getRootStatusJson_def status_document_def
      cmd_enable_def endpoint_accepts_def)
  show "last (snd (ReportStatusToLocalFile status_document quiet_os no_files ''/status'' [] 3
                StatusSuccess cmd_enable ''done'')) (''/status'', ''3.status'') =
     Some (''{'' @ [CHR 0x0A, CHR 0x09] @ quoted ''status'' @ '': '' @ quoted ''success'' @ '','' @
        [CHR 0x0A, CHR 0x09] @ quoted ''name'' @ '': '' @ quoted ''enable'' @ '','' @
        [CHR 0x0A, CHR 0x09] @ quoted ''message'' @ '': '' @ quoted ''done'' @ [CHR 0x0A] @ ''}'')"
    by (simp add: local_file_example)
  show "''{'' @ quoted ''status'' @ '':'' @ quoted ''success'' @ '','' @
      quoted ''name'' @ '':'' @ quoted ''enable'' @ '','' @
      quoted ''message'' @ '':'' @ quoted ''done'' @ ''}'' \<noteq>
   ''{'' @ [CHR 0x0A, CHR 0x09] @ quoted ''status'' @ '': '' @ quoted ''success'' @ '','' @
        [CHR 0x0A, CHR 0x09] @ quoted ''name'' @ '': '' @ quoted ''enable'' @ '','' @
        [CHR 0x0A, CHR 0x09] @ quoted ''message'' @ '': '' @ quoted ''done'' @ [CHR 0x0A] @ ''}''"
    by (simp add: quoted_def)
qed

end
